theory Spec2Isabelle
  imports Main "HOL-Library.AList"
begin

section \<open>JavaScript strings\<close>

text \<open>
  A string is a list of code units; the model keeps to the code units below 256, one
  \<^typ>\<open>char\<close> each. \<open>String.prototype.trim\<close> removes WhiteSpace and LineTerminator code
  points from both ends; in this range they are TAB, LF, VT, FF, CR, SP and NBSP.
\<close>

definition isWhiteSpace :: "char \<Rightarrow> bool" where
  "isWhiteSpace c = ((of_char c :: nat) \<in> {9, 10, 11, 12, 13, 32, 160})"

definition trim :: "string \<Rightarrow> string" where
  "trim s = rev (dropWhile isWhiteSpace (rev (dropWhile isWhiteSpace s)))"

fun startsWith :: "string \<Rightarrow> string \<Rightarrow> bool" where
  "startsWith s [] = True"
| "startsWith [] (c # t) = False"
| "startsWith (d # s) (c # t) = (d = c \<and> startsWith s t)"

definition endsWith :: "string \<Rightarrow> string \<Rightarrow> bool" where
  "endsWith s t = startsWith (rev s) (rev t)"

fun includesStr :: "string \<Rightarrow> string \<Rightarrow> bool" where
  "includesStr [] t = (t = [])"
| "includesStr (d # s) t = (startsWith (d # s) t \<or> includesStr s t)"

text \<open>\<open>toLowerCase\<close> on the code units below 256: A-Z and the Latin-1 capitals.\<close>

definition lowerChar :: "char \<Rightarrow> char" where
  "lowerChar c =
     (let n = (of_char c :: nat)
      in if (65 \<le> n \<and> n \<le> 90) \<or> (192 \<le> n \<and> n \<le> 222 \<and> n \<noteq> 215)
         then char_of (n + 32) else c)"

definition toLowerCase :: "string \<Rightarrow> string" where
  "toLowerCase s = map lowerChar s"

text \<open>Decimal rendering of a number inside a template literal.\<close>

definition digitChar :: "nat \<Rightarrow> char" where
  "digitChar d = char_of (48 + d)"

fun showNat :: "nat \<Rightarrow> string" where
  "showNat n = (if n < 10 then [digitChar n] else showNat (n div 10) @ [digitChar (n mod 10)])"

declare showNat.simps [simp del]

section \<open>The page: a DOM tree and the jQuery calls made on it\<close>

text \<open>
  An element has a lower-case tag name, the text of its \<open>class\<close> attribute (empty when
  the attribute is absent) and its child nodes in document order. An element of the page
  is named by its path from \<open>body\<close>: the child indices on the way down.
\<close>

datatype node = Element (tag: string) (cls: string) (children: "node list") | Text string

type_synonym path = "nat list"
type_synonym handle = "path \<times> node"

fun textContent :: "node \<Rightarrow> string" where
  "textContent (Text s) = s"
| "textContent (Element t c ks) = concat (map textContent ks)"

text \<open>Strict descendants of a node in document order, each with its path from that node.\<close>

fun descendants :: "node \<Rightarrow> handle list"
  and descendantsFrom :: "nat \<Rightarrow> node list \<Rightarrow> handle list" where
  "descendants (Text s) = []"
| "descendants (Element t c ks) = descendantsFrom 0 ks"
| "descendantsFrom i [] = []"
| "descendantsFrom i (k # ks) =
     ([i], k) # map (\<lambda>(p, n). (i # p, n)) (descendants k) @ descendantsFrom (Suc i) ks"

text \<open>The nodes on the way from \<open>n\<close> (reached by \<open>pre\<close>) down the path, outermost first.\<close>

fun chain :: "path \<Rightarrow> node \<Rightarrow> path \<Rightarrow> handle list" where
  "chain pre n [] = [(pre, n)]"
| "chain pre n (i # p) =
     (pre, n) # (case n of
                   Element t c ks \<Rightarrow> if i < length ks then chain (pre @ [i]) (ks ! i) p else []
                 | Text s \<Rightarrow> [])"

text \<open>
  \<open>jQuery.uniqueSort\<close>: duplicates removed, document order. A jQuery object is the list
  of its elements.
\<close>

definition uniqueSort :: "node \<Rightarrow> handle list \<Rightarrow> handle list" where
  "uniqueSort body hs = filter (\<lambda>h. fst h \<in> fst ` set hs) (([], body) # descendants body)"

text \<open>\<open>$set.find(sel)\<close>: the descendants of the elements of the set that match.\<close>

definition jq_find :: "node \<Rightarrow> (node \<Rightarrow> bool) \<Rightarrow> handle list \<Rightarrow> handle list" where
  "jq_find body sel hs =
     uniqueSort body
       (concat (map (\<lambda>(p, n). map (\<lambda>(q, m). (p @ q, m)) (filter (\<lambda>h. sel (snd h)) (descendants n))) hs))"

text \<open>\<open>$set.closest(sel)\<close>: for each element the nearest of itself and its ancestors that matches.\<close>

definition closest1 :: "node \<Rightarrow> (node \<Rightarrow> bool) \<Rightarrow> path \<Rightarrow> handle list" where
  "closest1 body sel p =
     (case List.find (\<lambda>h. sel (snd h)) (rev (chain [] body p)) of None \<Rightarrow> [] | Some h \<Rightarrow> [h])"

definition jq_closest :: "node \<Rightarrow> (node \<Rightarrow> bool) \<Rightarrow> handle list \<Rightarrow> handle list" where
  "jq_closest body sel hs = uniqueSort body (concat (map (\<lambda>h. closest1 body sel (fst h)) hs))"

definition jq_first :: "handle list \<Rightarrow> handle list" where
  "jq_first hs = take 1 hs"

definition jq_text :: "handle list \<Rightarrow> string" where
  "jq_text hs = concat (map (\<lambda>h. textContent (snd h)) hs)"

subsection \<open>Selectors\<close>

definition isAsciiWs :: "char \<Rightarrow> bool" where
  "isAsciiWs c = ((of_char c :: nat) \<in> {9, 10, 12, 13, 32})"

fun tokensAcc :: "string \<Rightarrow> string \<Rightarrow> string list" where
  "tokensAcc cur [] = (if cur = [] then [] else [cur])"
| "tokensAcc cur (c # cs) =
     (if isAsciiWs c then (if cur = [] then tokensAcc [] cs else cur # tokensAcc [] cs)
      else tokensAcc (cur @ [c]) cs)"

definition classTokens :: "string \<Rightarrow> string list" where
  "classTokens c = tokensAcc [] c"

text \<open>\<open>tag.c1.c2...\<close>: an element of that tag whose class list has every \<open>ci\<close>.\<close>

fun tagWithClasses :: "string \<Rightarrow> string list \<Rightarrow> node \<Rightarrow> bool" where
  "tagWithClasses t cs (Text s) = False"
| "tagWithClasses t cs (Element t' c ks) = (t' = t \<and> list_all (\<lambda>x. x \<in> set (classTokens c)) cs)"

text \<open>\<open>[class*="x"]\<close>: an element whose class attribute contains \<open>x\<close>.\<close>

fun classContains :: "string \<Rightarrow> node \<Rightarrow> bool" where
  "classContains x (Text s) = False"
| "classContains x (Element t c ks) = includesStr c x"

fun hasTag :: "string \<Rightarrow> node \<Rightarrow> bool" where
  "hasTag t (Text s) = False"
| "hasTag t (Element t' c ks) = (t' = t)"

text \<open>\<open>[class*="text-content-secondary"]:contains("label")\<close>\<close>

definition labelSel :: "string \<Rightarrow> node \<Rightarrow> bool" where
  "labelSel label n = (classContains ''text-content-secondary'' n \<and> includesStr (textContent n) label)"

text \<open>\<open>div[class*="rounded"]\<close>\<close>

definition containerSel :: "node \<Rightarrow> bool" where
  "containerSel n = (hasTag ''div'' n \<and> classContains ''rounded'' n)"

text \<open>The three value selectors, and the selector list made by joining them with a comma.\<close>

definition structuralSel :: "node \<Rightarrow> bool" where
  "structuralSel =
     tagWithClasses ''div'' [''mt-1'', ''line-clamp-2'', ''text-sm'', ''font-medium'', ''text-content-primary'']"

definition spanSel :: "node \<Rightarrow> bool" where
  "spanSel = tagWithClasses ''span'' [''text-sm'', ''font-medium'', ''text-content-primary'']"

definition broadSel :: "node \<Rightarrow> bool" where
  "broadSel n = (classContains ''font-medium'' n \<and> classContains ''text-content-primary'' n)"

definition valueSel :: "node \<Rightarrow> bool" where
  "valueSel n = (structuralSel n \<or> spanSel n \<or> broadSel n)"

section \<open>Field resolution (the body of the loop of extractCompanyFields)\<close>

definition resolveField :: "node \<Rightarrow> string \<Rightarrow> string option" where
  "resolveField body label =
     (let labelEls = jq_find body (labelSel label) [([], body)]
      in if length labelEls > 0
         then let container = jq_closest body containerSel labelEls;
                  valueEl = jq_first (jq_find body valueSel container)
              in if length valueEl > 0 then Some (trim (jq_text valueEl)) else None
         else None)"

section \<open>The verification record\<close>

text \<open>
  \<open>verifyRecords\<close> is an object whose own keys keep their insertion order: an association
  list. A value is a string or the metadata object. \<open>obj[key] = v\<close> is \<open>AList.update\<close>:
  an existing key keeps its place, a new key goes to the end.
\<close>

record metadata =
  extracted_at :: string
  company_id :: string
  frontend_url :: string
  extraction_type :: string
  total_fields :: nat
  fields_extracted :: "nat option"
  extraction_success :: "bool option"

datatype jsval = JStr string | JMeta metadata

type_synonym vrecord = "(string \<times> jsval) list"

record company =
  c_id :: string
  c_name :: string
  c_frontend_url :: string

text \<open>An entry of the \<open>companies\<close> array of config.json.\<close>

record cfg_company = company +
  ai_generated_memo :: "string option"

subsection \<open>Results of the tasks of cypress.config.js\<close>

text \<open>What moveDownloadedFile returns, and an entry of the list it sorts.\<close>

record move_result =
  mr_success :: bool
  mr_filename :: "string option"
  mr_fullPath :: "string option"
  mr_error :: "string option"

record dl_file =
  df_name :: string
  df_path :: "string list"
  df_mtime :: int

text \<open>What updateConfigWithMemoPath returns: one entry for each path, and the totals.\<close>

record patch_entry =
  pe_path :: string
  pe_success :: bool
  pe_message :: "string option"
  pe_error :: "string option"
  pe_memoPath :: "string option"

record patch_report =
  pr_success :: bool
  pr_totalFiles :: nat
  pr_successCount :: nat
  pr_results :: "patch_entry list"
  pr_summary :: string

subsection \<open>The schema and the record of one company\<close>

text \<open>The schema: label and key of each field, in order.\<close>

definition fields :: "(string \<times> string) list" where
  "fields =
    [(''Company name'', ''company_name''),
     (''Industry'', ''industry''),
     (''Location'', ''location''),
     (''Founders'', ''founders''),
     (''Founder Email'', ''founder_email''),
     (''Year Founded'', ''year_founded''),
     (''Funding Stage'', ''funding_stage''),
     (''Latest Valuation'', ''latest_valuation''),
     (''Fund Raise Target'', ''fund_raise_target''),
     (''Amount Raised'', ''amount_raised''),
     (''Revenue'', ''revenue''),
     (''List of investors'', ''list_of_investors''),
     (''Lead Investor'', ''lead_investor''),
     (''Verticals'', ''verticals''),
     (''Keywords'', ''keywords'')]"

text \<open>
  One turn of the \<open>forEach\<close> of extractCompanyFields, with the outcome of the DOM search
  for the label given by \<open>resolve\<close>: a found value is stored under the key, otherwise the
  record is left as it is (the two \<open>else\<close> branches only log).
\<close>

definition extractField :: "(string \<Rightarrow> string option) \<Rightarrow> string \<times> string \<Rightarrow> vrecord \<Rightarrow> vrecord" where
  "extractField resolve f verifyRecords =
     (case resolve (fst f) of
        Some v \<Rightarrow> AList.update (snd f) (JStr v) verifyRecords
      | None \<Rightarrow> verifyRecords)"

definition extractFieldsWith :: "(string \<Rightarrow> string option) \<Rightarrow> vrecord \<Rightarrow> vrecord" where
  "extractFieldsWith resolve verifyRecords = fold (extractField resolve) fields verifyRecords"

definition extractCompanyFields :: "node \<Rightarrow> vrecord \<Rightarrow> vrecord" where
  "extractCompanyFields body verifyRecords = extractFieldsWith (resolveField body) verifyRecords"

text \<open>The record the test starts from; \<open>now\<close> is \<open>new Date().toISOString()\<close>.\<close>

definition initialRecord :: "string \<Rightarrow> company \<Rightarrow> vrecord" where
  "initialRecord now c =
    [(''company_name'', JStr []),
     (''industry'', JStr []),
     (''location'', JStr []),
     (''founders'', JStr []),
     (''founder_email'', JStr []),
     (''year_founded'', JStr []),
     (''funding_stage'', JStr []),
     (''latest_valuation'', JStr []),
     (''fund_raise_target'', JStr []),
     (''amount_raised'', JStr []),
     (''revenue'', JStr []),
     (''list_of_investors'', JStr []),
     (''lead_investor'', JStr []),
     (''verticals'', JStr []),
     (''keywords'', JStr []),
     (''_extraction_metadata'',
        JMeta \<lparr>extracted_at = now, company_id = c_id c, frontend_url = c_frontend_url c,
               extraction_type = ''ai_output_verification'', total_fields = 15,
               fields_extracted = None, extraction_success = None\<rparr>)]"

text \<open>Truthiness and \<open>toString()\<close> of a value; a missing property reads as \<open>undefined\<close>.\<close>

fun truthy :: "jsval \<Rightarrow> bool" where
  "truthy (JStr s) = (s \<noteq> [])"
| "truthy (JMeta m) = True"

fun toStringJs :: "jsval \<Rightarrow> string" where
  "toStringJs (JStr s) = s"
| "toStringJs (JMeta m) = ''[object Object]''"

definition hasData :: "vrecord \<Rightarrow> string \<Rightarrow> bool" where
  "hasData verifyRecords key =
     (\<not> startsWith key ''_'' \<and>
      (case map_of verifyRecords key of
         None \<Rightarrow> False
       | Some v \<Rightarrow> truthy v \<and> trim (toStringJs v) \<noteq> []))"

definition fieldsWithData :: "vrecord \<Rightarrow> nat" where
  "fieldsWithData verifyRecords = length (filter (hasData verifyRecords) (map fst verifyRecords))"

text \<open>
  \<open>verifyRecords._extraction_metadata.p = v\<close>. The key always holds the metadata object:
  no field of the schema is stored under it.
\<close>

fun onMeta :: "(metadata \<Rightarrow> metadata) \<Rightarrow> jsval \<Rightarrow> jsval" where
  "onMeta f (JMeta m) = JMeta (f m)"
| "onMeta f (JStr s) = JStr s"

definition setMeta :: "(metadata \<Rightarrow> metadata) \<Rightarrow> vrecord \<Rightarrow> vrecord" where
  "setMeta f verifyRecords =
     map (\<lambda>(k, v). if k = ''_extraction_metadata'' then (k, onMeta f v) else (k, v)) verifyRecords"

definition finalize :: "vrecord \<Rightarrow> vrecord" where
  "finalize verifyRecords =
     (let n = fieldsWithData verifyRecords;
          r1 = setMeta (\<lambda>m. m\<lparr>fields_extracted := Some n\<rparr>) verifyRecords
      in setMeta (\<lambda>m. m\<lparr>extraction_success := Some (n > 0)\<rparr>) r1)"

section \<open>The test: one company after the other\<close>

text \<open>
  \<open>cy.visit\<close> either fails the test or leaves the browser at some URL showing some page.
  A failed command or assertion ends the test: nothing queued after it runs.
\<close>

datatype visit_outcome = VisitFailed string | Loaded string node

datatype test_error = VisitError string | UrlAssertionError string

datatype status = Passed | Failed test_error

definition outputFile :: "company \<Rightarrow> string" where
  "outputFile c = ''data/extracted/'' @ c_name c @ ''_frontend_data.json''"

definition processCompany :: "(string \<Rightarrow> visit_outcome) \<Rightarrow> string \<Rightarrow> company \<Rightarrow> test_error + vrecord" where
  "processCompany visit now c =
     (let verifyRecords = initialRecord now c
      in case visit (c_frontend_url c) of
           VisitFailed e \<Rightarrow> Inl (VisitError e)
         | Loaded url body \<Rightarrow>
             if includesStr url ''company-detail''
             then Inr (finalize (extractCompanyFields body verifyRecords))
             else Inl (UrlAssertionError url))"

text \<open>
  The \<open>each\<close> over the companies. \<open>clock i\<close> is the time at which the callback of company
  \<open>i\<close> runs; \<open>written\<close> collects the \<open>cy.writeFile\<close> calls in order, each with the record
  that is serialised.
\<close>

fun processAll :: "(string \<Rightarrow> visit_outcome) \<Rightarrow> (nat \<Rightarrow> string) \<Rightarrow> nat \<Rightarrow> company list
    \<Rightarrow> (string \<times> vrecord) list \<Rightarrow> (string \<times> vrecord) list \<times> status" where
  "processAll visit clock i [] written = (written, Passed)"
| "processAll visit clock i (c # cs) written =
     (case processCompany visit (clock i) c of
        Inl e \<Rightarrow> (written, Failed e)
      | Inr r \<Rightarrow> processAll visit clock (Suc i) cs (written @ [(outputFile c, r)]))"

definition runExtraction :: "(string \<Rightarrow> visit_outcome) \<Rightarrow> (nat \<Rightarrow> string) \<Rightarrow> company list
    \<Rightarrow> (string \<times> vrecord) list \<times> status" where
  "runExtraction visit clock companies = processAll visit clock 0 companies []"

section \<open>What the specification says of a record\<close>

text \<open>
  The count in the specification's words: the keys that do not start with an underscore
  and hold a string whose trimmed text is not empty.
\<close>

fun isNonEmptyString :: "jsval \<Rightarrow> bool" where
  "isNonEmptyString (JStr s) = (trim s \<noteq> [])"
| "isNonEmptyString (JMeta m) = False"

definition nonEmptyFieldCount :: "vrecord \<Rightarrow> nat" where
  "nonEmptyFieldCount r = length (filter (\<lambda>(k, v). \<not> startsWith k ''_'' \<and> isNonEmptyString v) r)"

definition metaOf :: "vrecord \<Rightarrow> metadata option" where
  "metaOf r = (case map_of r ''_extraction_metadata'' of Some (JMeta m) \<Rightarrow> Some m | _ \<Rightarrow> None)"

text \<open>
  The shape of a record of the test: the keys of the schema in order, then the metadata
  key; strings under the former, the metadata object under the latter.
\<close>

fun slotOk :: "string \<times> jsval \<Rightarrow> bool" where
  "slotOk (k, JStr s) = (k \<noteq> ''_extraction_metadata'')"
| "slotOk (k, JMeta m) = (k = ''_extraction_metadata'')"

definition shaped :: "vrecord \<Rightarrow> bool" where
  "shaped r = (map fst r = map snd fields @ [''_extraction_metadata''] \<and> list_all slotOk r)"

text \<open>The record with the time stamp of its metadata replaced.\<close>

definition withExtractedAt :: "string \<Rightarrow> vrecord \<Rightarrow> vrecord" where
  "withExtractedAt t r = setMeta (\<lambda>m. m\<lparr>extracted_at := t\<rparr>) r"

section \<open>A small page\<close>

definition demoPage :: node where
  "demoPage =
     Element ''body'' []
       [Element ''div'' ''rounded-lg p-4''
          [Element ''span'' ''text-xs text-content-secondary'' [Text ''Industry''],
           Element ''span'' ''text-sm font-medium text-content-primary'' [Text '' Robotics '']]]"

definition demoCompany :: company where
  "demoCompany = \<lparr>c_id = ''7'', c_name = ''Acme'', c_frontend_url = ''/company-detail/7''\<rparr>"

definition demoVisit :: "string \<Rightarrow> visit_outcome" where
  "demoVisit u =
     (if u = ''/company-detail/7'' then Loaded ''https://alphame.adgo.dev/company-detail/7'' demoPage
      else if u = ''/company-detail/8'' then Loaded ''https://alphame.adgo.dev/login'' demoPage
      else VisitFailed ''404'')"


text \<open>
  A card in which an element matched only by the third, broad selector comes before the
  element matched by the first, structural one.
\<close>

definition orderPage :: node where
  "orderPage =
     Element ''body'' []
       [Element ''div'' ''rounded-lg p-4''
          [Element ''span'' ''text-xs text-content-secondary'' [Text ''Industry''],
           Element ''p'' ''font-medium text-content-primary'' [Text ''Broad''],
           Element ''div'' ''mt-1 line-clamp-2 text-sm font-medium text-content-primary''
             [Text ''Structural'']]]"



section \<open>The file system the tasks act on\<close>

text \<open>
  A path is the list of its segments from the root. \<open>path.join\<close> (POSIX) splits its
  arguments at the separator, drops empty and \<open>.\<close> segments and lets \<open>..\<close> remove the
  segment before it. \<open>process.cwd()\<close> and the \<open>downloadsFolder\<close> of the resolved Cypress
  configuration are absolute paths, given by their segments.
\<close>

type_synonym fpath = "string list"

fun splitSlash :: "string \<Rightarrow> string \<Rightarrow> string list" where
  "splitSlash cur [] = [cur]"
| "splitSlash cur (c # cs) =
     (if c = CHR ''/'' then cur # splitSlash [] cs else splitSlash (cur @ [c]) cs)"

definition normalizeStep :: "string \<Rightarrow> fpath \<Rightarrow> fpath" where
  "normalizeStep s acc =
     (if s = [] \<or> s = ''.'' then acc else if s = ''..'' then butlast acc else acc @ [s])"

definition normalizeSegs :: "string list \<Rightarrow> fpath" where
  "normalizeSegs segs = fold normalizeStep segs []"

definition pathJoin :: "fpath \<Rightarrow> string \<Rightarrow> fpath" where
  "pathJoin base rel = normalizeSegs (base @ splitSlash [] rel)"

definition showPath :: "fpath \<Rightarrow> string" where
  "showPath p = (if p = [] then ''/'' else concat (map (\<lambda>s. CHR ''/'' # s) p))"

definition quoted :: "string \<Rightarrow> string" where
  "quoted s = CHR 0x27 # s @ [CHR 0x27]"

text \<open>
  The text of a file is kept as what
  \<open>JSON.parse\<close> makes of it: a document with a \<open>companies\<close> array, another JSON value
  (reading \<open>companies.find\<close> of it throws), or text that does not parse.
\<close>

datatype json_doc = ConfigDoc "cfg_company list" | OtherDoc

datatype content = Json json_doc | Raw string

text \<open>
  A file has a modification time (milliseconds), a flag saying whether it may be
  written, and its content; a directory has a modification time and the names
  \<open>readdir\<close> lists, in that order.
\<close>

datatype fnode = FileNode int bool content | DirNode int "string list"

type_synonym fsys = "fpath \<Rightarrow> fnode option"

fun isFile :: "fnode \<Rightarrow> bool" where
  "isFile (FileNode t w c) = True"
| "isFile (DirNode t ns) = False"

fun mtime :: "fnode \<Rightarrow> int" where
  "mtime (FileNode t w c) = t"
| "mtime (DirNode t ns) = t"

definition existsSync :: "fsys \<Rightarrow> fpath \<Rightarrow> bool" where
  "existsSync fs p = (fs p \<noteq> None)"

definition readdirSync :: "fsys \<Rightarrow> fpath \<Rightarrow> string + string list" where
  "readdirSync fs p =
     (case fs p of
        None \<Rightarrow> Inl (''ENOENT: no such file or directory, scandir '' @ quoted (showPath p))
      | Some (FileNode t w c) \<Rightarrow> Inl (''ENOTDIR: not a directory, scandir '' @ quoted (showPath p))
      | Some (DirNode t ns) \<Rightarrow> Inr ns)"

definition statSync :: "fsys \<Rightarrow> fpath \<Rightarrow> string + fnode" where
  "statSync fs p =
     (case fs p of
        None \<Rightarrow> Inl (''ENOENT: no such file or directory, stat '' @ quoted (showPath p))
      | Some n \<Rightarrow> Inr n)"

definition removeName :: "fsys \<Rightarrow> fpath \<Rightarrow> string \<Rightarrow> fsys" where
  "removeName fs dir name =
     (case fs dir of
        Some (DirNode t ns) \<Rightarrow> fs(dir \<mapsto> DirNode t (removeAll name ns))
      | _ \<Rightarrow> fs)"

definition addName :: "fsys \<Rightarrow> fpath \<Rightarrow> string \<Rightarrow> fsys" where
  "addName fs dir name =
     (case fs dir of
        Some (DirNode t ns) \<Rightarrow> fs(dir \<mapsto> DirNode t (if name \<in> set ns then ns else ns @ [name]))
      | _ \<Rightarrow> fs)"

text \<open>
  \<open>unlinkSync(p)\<close> at time \<open>now\<close>. The operating system may refuse to remove an entry
  it holds (\<open>EACCES\<close> when the folder may not be written, \<open>EPERM\<close>, \<open>EBUSY\<close>):
  \<open>refuses p\<close> is the message of that error, if any. Removing an entry sets the
  modification time of the folder.
\<close>

definition setDirTime :: "int \<Rightarrow> fsys \<Rightarrow> fpath \<Rightarrow> fsys" where
  "setDirTime now fs dir =
     (case fs dir of
        Some (DirNode t ns) \<Rightarrow> fs(dir \<mapsto> DirNode now ns)
      | _ \<Rightarrow> fs)"

definition unlinkSync :: "int \<Rightarrow> (fpath \<Rightarrow> string option) \<Rightarrow> fsys \<Rightarrow> fpath \<Rightarrow> string + fsys" where
  "unlinkSync now refuses fs p =
     (case fs p of
        None \<Rightarrow> Inl (''ENOENT: no such file or directory, unlink '' @ quoted (showPath p))
      | Some (DirNode t ns) \<Rightarrow> Inl (''EISDIR: illegal operation on a directory, unlink '' @ quoted (showPath p))
      | Some (FileNode t w c) \<Rightarrow>
          (case refuses p of
             Some e \<Rightarrow> Inl e
           | None \<Rightarrow>
               Inr (setDirTime now (removeName (fs(p := None)) (butlast p) (last p)) (butlast p))))"

text \<open>
  \<open>mkdirSync(p, {recursive: true})\<close>: every missing directory on the way is made. The
  result is the message of the error thrown, if any, and the file system reached.
\<close>

fun mkdirFrom :: "int \<Rightarrow> fpath \<Rightarrow> string list \<Rightarrow> fsys \<Rightarrow> string option \<times> fsys" where
  "mkdirFrom now pre [] fs = (None, fs)"
| "mkdirFrom now pre (s # ss) fs =
     (case fs (pre @ [s]) of
        Some (DirNode t ns) \<Rightarrow> mkdirFrom now (pre @ [s]) ss fs
      | Some (FileNode t w c) \<Rightarrow>
          (Some ((if ss = [] then ''EEXIST: file already exists, mkdir ''
                  else ''ENOTDIR: not a directory, mkdir '') @ quoted (showPath (pre @ s # ss))), fs)
      | None \<Rightarrow> mkdirFrom now (pre @ [s]) ss (addName (fs(pre @ [s] \<mapsto> DirNode now [])) pre s))"

definition mkdirSync :: "int \<Rightarrow> fsys \<Rightarrow> fpath \<Rightarrow> string option \<times> fsys" where
  "mkdirSync now fs p = mkdirFrom now [] p fs"

text \<open>
  \<open>renameSync(src, dst)\<close>: the node at \<open>src\<close>, with all that is below it, is found at
  \<open>dst\<close> afterwards, replacing what was there.
\<close>

definition isPrefix :: "fpath \<Rightarrow> fpath \<Rightarrow> bool" where
  "isPrefix p q = (take (length p) q = p)"

definition moved :: "fsys \<Rightarrow> fpath \<Rightarrow> fpath \<Rightarrow> fsys" where
  "moved fs src dst =
     addName
       (removeName
          (\<lambda>p. if isPrefix dst p then fs (src @ drop (length dst) p)
               else if isPrefix src p then None else fs p)
          (butlast src) (last src))
       (butlast dst) (last dst)"

text \<open>
  A path cannot be moved below itself, nor onto a directory above it (that directory is
  not empty), nor a file onto a directory, nor a directory onto a file or onto a directory
  that is not empty; the directory that is to hold \<open>dst\<close> must exist.
\<close>

definition renameSync :: "fsys \<Rightarrow> fpath \<Rightarrow> fpath \<Rightarrow> string + fsys" where
  "renameSync fs src dst =
     (let msg = quoted (showPath src) @ '' -> '' @ quoted (showPath dst)
      in case fs src of
           None \<Rightarrow> Inl (''ENOENT: no such file or directory, rename '' @ msg)
         | Some n \<Rightarrow>
             if src = dst then Inr fs
             else if isPrefix src dst then Inl (''EINVAL: invalid argument, rename '' @ msg)
             else if isPrefix dst src
             then Inl ((if isFile n then ''EISDIR: illegal operation on a directory, rename ''
                        else ''ENOTEMPTY: directory not empty, rename '') @ msg)
             else (case fs (butlast dst) of
                     Some (DirNode t ns) \<Rightarrow>
                       (case fs dst of
                          Some (DirNode t' ns') \<Rightarrow>
                            if isFile n then Inl (''EISDIR: illegal operation on a directory, rename '' @ msg)
                            else if ns' \<noteq> [] then Inl (''ENOTEMPTY: directory not empty, rename '' @ msg)
                            else Inr (moved fs src dst)
                        | Some (FileNode t' w' c') \<Rightarrow>
                            if isFile n then Inr (moved fs src dst)
                            else Inl (''ENOTDIR: not a directory, rename '' @ msg)
                        | None \<Rightarrow> Inr (moved fs src dst))
                   | _ \<Rightarrow> Inl (''ENOENT: no such file or directory, rename '' @ msg)))"

text \<open>\<open>JSON.parse(fs.readFileSync(p, 'utf8'))\<close>\<close>

definition readJson :: "fsys \<Rightarrow> fpath \<Rightarrow> string + json_doc" where
  "readJson fs p =
     (case fs p of
        None \<Rightarrow> Inl (''ENOENT: no such file or directory, open '' @ quoted (showPath p))
      | Some (DirNode t ns) \<Rightarrow> Inl ''EISDIR: illegal operation on a directory, read''
      | Some (FileNode t w (Raw s)) \<Rightarrow> Inl ''Unexpected token in JSON''
      | Some (FileNode t w (Json d)) \<Rightarrow> Inr d)"

text \<open>\<open>fs.writeFileSync(p, JSON.stringify(d, null, 2))\<close>\<close>

definition writeJson :: "int \<Rightarrow> fsys \<Rightarrow> fpath \<Rightarrow> json_doc \<Rightarrow> string + fsys" where
  "writeJson now fs p d =
     (case fs p of
        Some (DirNode t ns) \<Rightarrow> Inl (''EISDIR: illegal operation on a directory, open '' @ quoted (showPath p))
      | Some (FileNode t w c) \<Rightarrow>
          if w then Inr (fs(p \<mapsto> FileNode now w (Json d)))
          else Inl (''EACCES: permission denied, open '' @ quoted (showPath p))
      | None \<Rightarrow>
          (case fs (butlast p) of
             Some (DirNode t ns) \<Rightarrow> Inr (addName (fs(p \<mapsto> FileNode now True (Json d))) (butlast p) (last p))
           | _ \<Rightarrow> Inl (''ENOENT: no such file or directory, open '' @ quoted (showPath p))))"

section \<open>The tasks of cypress.config.js\<close>

subsection \<open>clearDownloads\<close>

text \<open>The task returns \<open>null\<close>, or an exception leaves it: nothing in it catches.\<close>

datatype task_outcome = ReturnedNull | Threw string

fun clearLoop :: "int \<Rightarrow> (fpath \<Rightarrow> string option) \<Rightarrow> fpath \<Rightarrow> string list \<Rightarrow> fsys
    \<Rightarrow> task_outcome \<times> fsys" where
  "clearLoop now refuses downloadsPath [] fs = (ReturnedNull, fs)"
| "clearLoop now refuses downloadsPath (file # files) fs =
     (let filePath = pathJoin downloadsPath file
      in case statSync fs filePath of
           Inl e \<Rightarrow> (Threw e, fs)
         | Inr n \<Rightarrow>
             if isFile n
             then (case unlinkSync now refuses fs filePath of
                     Inl e \<Rightarrow> (Threw e, fs)
                   | Inr fs' \<Rightarrow> clearLoop now refuses downloadsPath files fs')
             else clearLoop now refuses downloadsPath files fs)"

definition clearDownloads :: "int \<Rightarrow> (fpath \<Rightarrow> string option) \<Rightarrow> fpath \<Rightarrow> fsys
    \<Rightarrow> task_outcome \<times> fsys" where
  "clearDownloads now refuses downloadsFolder fs =
     (let downloadsPath = normalizeSegs downloadsFolder
      in if existsSync fs downloadsPath
         then (case readdirSync fs downloadsPath of
                 Inl e \<Rightarrow> (Threw e, fs)
               | Inr files \<Rightarrow> clearLoop now refuses downloadsPath files fs)
         else (ReturnedNull, fs))"

subsection \<open>moveDownloadedFile\<close>

text \<open>What the \<open>catch\<close> returns, and the early return for an empty list.\<close>

definition moveFailed :: "string \<Rightarrow> move_result" where
  "moveFailed e = \<lparr>mr_success = False, mr_filename = None, mr_fullPath = None, mr_error = Some e\<rparr>"

definition isPdfName :: "string \<Rightarrow> bool" where
  "isPdfName file = endsWith (toLowerCase file) ''.pdf''"

text \<open>The \<open>map\<close> over the names: the first \<open>statSync\<close> that throws ends it.\<close>

fun statAll :: "fsys \<Rightarrow> fpath \<Rightarrow> string list \<Rightarrow> string + dl_file list" where
  "statAll fs downloadsPath [] = Inr []"
| "statAll fs downloadsPath (file # files) =
     (case statSync fs (pathJoin downloadsPath file) of
        Inl e \<Rightarrow> Inl e
      | Inr n \<Rightarrow>
          (case statAll fs downloadsPath files of
             Inl e \<Rightarrow> Inl e
           | Inr rest \<Rightarrow>
               Inr (\<lparr>df_name = file, df_path = pathJoin downloadsPath file, df_mtime = mtime n\<rparr> # rest)))"

text \<open>
  \<open>sort((a, b) => b.mtime - a.mtime)\<close>: latest first; the sort is stable, so files of
  equal time keep the order of \<open>readdir\<close>.
\<close>

definition newestFirst :: "dl_file list \<Rightarrow> dl_file list" where
  "newestFirst files = sort_key (\<lambda>f. - df_mtime f) files"

definition ensureFolder :: "int \<Rightarrow> fsys \<Rightarrow> fpath \<Rightarrow> string option \<times> fsys" where
  "ensureFolder now fs targetPath =
     (if \<not> existsSync fs targetPath then mkdirSync now fs targetPath else (None, fs))"

definition moveDownloadedFile :: "int \<Rightarrow> fpath \<Rightarrow> fpath \<Rightarrow> string \<Rightarrow> string \<Rightarrow> fsys
    \<Rightarrow> move_result \<times> fsys" where
  "moveDownloadedFile now downloadsFolder cwd companyName targetFolder fs =
     (let downloadsPath = downloadsFolder;
          targetPath = pathJoin cwd targetFolder
      in case ensureFolder now fs targetPath of
           (Some e, fs1) \<Rightarrow> (moveFailed e, fs1)
         | (None, fs1) \<Rightarrow>
             (case readdirSync fs1 downloadsPath of
                Inl e \<Rightarrow> (moveFailed e, fs1)
              | Inr names \<Rightarrow>
                  (case statAll fs1 downloadsPath (filter isPdfName names) of
                     Inl e \<Rightarrow> (moveFailed e, fs1)
                   | Inr unsorted \<Rightarrow>
                       (case newestFirst unsorted of
                          [] \<Rightarrow> (moveFailed ''No PDF file found in downloads'', fs1)
                        | mostRecentFile # others \<Rightarrow>
                            (let targetFileName = companyName @ ''_Investment_Memo.pdf'';
                                 targetFilePath = pathJoin targetPath targetFileName
                             in case renameSync fs1 (df_path mostRecentFile) targetFilePath of
                                  Inl e \<Rightarrow> (moveFailed e, fs1)
                                | Inr fs2 \<Rightarrow>
                                    (\<lparr>mr_success = True, mr_filename = Some targetFileName,
                                      mr_fullPath = Some (showPath targetFilePath), mr_error = None\<rparr>,
                                     fs2))))))"

subsection \<open>updateConfigWithMemoPath\<close>

definition configPaths :: "string list" where
  "configPaths = [''cypress/fixtures/config.json'', ''config.json'']"

definition patchFailed :: "string \<Rightarrow> string \<Rightarrow> patch_entry" where
  "patchFailed configPath e =
     \<lparr>pe_path = configPath, pe_success = False, pe_message = None, pe_error = Some e,
      pe_memoPath = None\<rparr>"

text \<open>The first company of that name gets the memo path.\<close>

fun setMemo :: "string \<Rightarrow> string \<Rightarrow> cfg_company list \<Rightarrow> cfg_company list" where
  "setMemo companyName memo [] = []"
| "setMemo companyName memo (c # cs) =
     (if c_name c = companyName then c\<lparr>ai_generated_memo := Some memo\<rparr> # cs
      else c # setMemo companyName memo cs)"

text \<open>One turn of the \<open>forEach\<close> over the paths: the entry pushed and the file system left.\<close>

definition patchConfig :: "int \<Rightarrow> fpath \<Rightarrow> string \<Rightarrow> string \<Rightarrow> fsys \<Rightarrow> patch_entry \<times> fsys" where
  "patchConfig now cwd companyName configPath fs =
     (let fullConfigPath = pathJoin cwd configPath
      in if \<not> existsSync fs fullConfigPath
         then (patchFailed configPath (''File does not exist: '' @ configPath), fs)
         else (case readJson fs fullConfigPath of
                 Inl e \<Rightarrow> (patchFailed configPath (''Error updating '' @ configPath @ '': '' @ e), fs)
               | Inr OtherDoc \<Rightarrow>
                   (patchFailed configPath
                      (''Error updating '' @ configPath @ '': ''
                         @ ''Cannot read properties of undefined (reading '' @ quoted ''find'' @ '')''), fs)
               | Inr (ConfigDoc companies) \<Rightarrow>
                   (case List.find (\<lambda>c. c_name c = companyName) companies of
                      Some company \<Rightarrow>
                        (let memo = ''data/ai_outputs/'' @ companyName @ ''_Investment_Memo.pdf''
                         in case writeJson now fs fullConfigPath
                                   (ConfigDoc (setMemo companyName memo companies)) of
                              Inl e \<Rightarrow>
                                (patchFailed configPath (''Error updating '' @ configPath @ '': '' @ e), fs)
                            | Inr fs' \<Rightarrow>
                                (\<lparr>pe_path = configPath, pe_success = True,
                                  pe_message = Some (''Updated '' @ configPath @ '' with memo path for ''
                                                      @ companyName),
                                  pe_error = None, pe_memoPath = Some memo\<rparr>, fs'))
                    | None \<Rightarrow>
                        (patchFailed configPath
                           (''Company '' @ companyName @ '' not found in '' @ configPath), fs))))"

fun patchAll :: "int \<Rightarrow> fpath \<Rightarrow> string \<Rightarrow> string list \<Rightarrow> patch_entry list \<Rightarrow> fsys
    \<Rightarrow> patch_entry list \<times> fsys" where
  "patchAll now cwd companyName [] results fs = (results, fs)"
| "patchAll now cwd companyName (configPath # rest) results fs =
     (case patchConfig now cwd companyName configPath fs of
        (entry, fs') \<Rightarrow> patchAll now cwd companyName rest (results @ [entry]) fs')"

definition updateConfigWithMemoPath :: "int \<Rightarrow> fpath \<Rightarrow> string \<Rightarrow> fsys \<Rightarrow> patch_report \<times> fsys" where
  "updateConfigWithMemoPath now cwd companyName fs =
     (case patchAll now cwd companyName configPaths [] fs of
        (results, fs') \<Rightarrow>
          (let successCount = length (filter pe_success results)
           in (\<lparr>pr_success = successCount > 0,
                pr_totalFiles = length configPaths,
                pr_successCount = successCount,
                pr_results = results,
                pr_summary = ''Updated '' @ showNat successCount @ ''/'' @ showNat (length configPaths)
                               @ '' config files for '' @ companyName\<rparr>, fs')))"

subsection \<open>A small project directory\<close>

definition demoCwd :: fpath where
  "demoCwd = [''home'', ''qa'']"

definition demoDownloads :: fpath where
  "demoDownloads = [''home'', ''qa'', ''cypress'', ''downloads'']"

definition demoConfig :: json_doc where
  "demoConfig =
     ConfigDoc [\<lparr>c_id = ''7'', c_name = ''Acme'', c_frontend_url = ''/company-detail/7'',
                 ai_generated_memo = None\<rparr>]"

definition demoFs :: fsys where
  "demoFs =
     Map.empty
      ([''home'', ''qa''] \<mapsto> DirNode 5 [''config.json'', ''cypress''],
      [''home'', ''qa'', ''config.json''] \<mapsto> FileNode 10 True (Json demoConfig),
      [''home'', ''qa'', ''cypress''] \<mapsto> DirNode 5 [''downloads''],
      [''home'', ''qa'', ''cypress'', ''downloads''] \<mapsto> DirNode 40 [''old.pdf'', ''memo.PDF'', ''notes.txt'', ''keep''],
      [''home'', ''qa'', ''cypress'', ''downloads'', ''old.pdf''] \<mapsto> FileNode 20 True (Raw ''old''),
      [''home'', ''qa'', ''cypress'', ''downloads'', ''memo.PDF''] \<mapsto> FileNode 30 True (Raw ''new''),
      [''home'', ''qa'', ''cypress'', ''downloads'', ''notes.txt''] \<mapsto> FileNode 35 True (Raw ''n''),
      [''home'', ''qa'', ''cypress'', ''downloads'', ''keep''] \<mapsto> DirNode 36 [''inner.pdf''],
      [''home'', ''qa'', ''cypress'', ''downloads'', ''keep'', ''inner.pdf''] \<mapsto> FileNode 37 True (Raw ''i''))"

section \<open>Notions for the properties of the tasks\<close>

text \<open>
  A directory lists plain names: not empty, not \<open>.\<close> or \<open>..\<close>, without a separator.
\<close>

definition okSeg :: "string \<Rightarrow> bool" where
  "okSeg s = (s \<noteq> [] \<and> s \<noteq> ''.'' \<and> s \<noteq> ''..'')"

definition plainName :: "string \<Rightarrow> bool" where
  "plainName n = (okSeg n \<and> CHR ''/'' \<notin> set n)"

definition isFileAt :: "fsys \<Rightarrow> fpath \<Rightarrow> bool" where
  "isFileAt fs p = (case fs p of Some n \<Rightarrow> isFile n | None \<Rightarrow> False)"

section \<open>Properties\<close>

subsection \<open>The metadata of a record\<close>

lemma trim_Nil [simp]: "trim [] = []"
  by (simp add: trim_def)

lemma keys_distinct: "distinct (map snd fields @ [''_extraction_metadata''])"
  by (simp add: fields_def)

lemma shaped_initial: "shaped (initialRecord now c)"
  by (simp add: shaped_def initialRecord_def fields_def)

lemma list_all_update:
  "list_all slotOk r \<Longrightarrow> slotOk (k, v) \<Longrightarrow> list_all slotOk (AList.update k v r)"
  by (induction r) auto

lemma shaped_update:
  assumes "shaped r" "k \<in> set (map snd fields)"
  shows "shaped (AList.update k (JStr v) r)"
proof -
  have "k \<noteq> ''_extraction_metadata''"
    using assms(2) by (auto simp: fields_def)
  then have ok: "slotOk (k, JStr v)" by simp
  have "k \<in> set (map fst r)"
    using assms unfolding shaped_def by simp
  then have "map fst (AList.update k (JStr v) r) = map fst r"
    by (simp add: update_keys)
  moreover have "list_all slotOk (AList.update k (JStr v) r)"
    using assms(1) ok unfolding shaped_def by (simp add: list_all_update)
  ultimately show ?thesis
    using assms(1) unfolding shaped_def by simp
qed

lemma shaped_fold:
  "shaped r \<Longrightarrow> set fs \<subseteq> set fields \<Longrightarrow> shaped (fold (extractField resolve) fs r)"
proof (induction fs arbitrary: r)
  case Nil
  then show ?case by simp
next
  case (Cons f fs)
  have "shaped (extractField resolve f r)"
    using Cons.prems by (auto simp: extractField_def shaped_update split: option.splits)
  then show ?case using Cons by simp
qed

lemma shaped_extract: "shaped r \<Longrightarrow> shaped (extractFieldsWith resolve r)"
  by (simp add: extractFieldsWith_def shaped_fold)

lemma shaped_distinct: "shaped r \<Longrightarrow> distinct (map fst r)"
  using keys_distinct by (simp add: shaped_def)

lemma hasData_slot:
  assumes "distinct (map fst r)" "(k, v) \<in> set r" "slotOk (k, v)"
  shows "hasData r k = (\<not> startsWith k ''_'' \<and> isNonEmptyString v)"
proof -
  have "map_of r k = Some v" using assms by simp
  then show ?thesis using assms(3)
    by (cases v) (auto simp: hasData_def)
qed

lemma fieldsWithData_count:
  assumes "shaped r"
  shows "fieldsWithData r = nonEmptyFieldCount r"
proof -
  have d: "distinct (map fst r)" using assms by (rule shaped_distinct)
  have ok: "\<forall>x \<in> set r. slotOk x" using assms by (simp add: shaped_def list_all_iff)
  have "filter (hasData r) (map fst r) = map fst (filter (\<lambda>x. hasData r (fst x)) r)"
    by (simp add: filter_map comp_def)
  moreover have "filter (\<lambda>x. hasData r (fst x)) r
      = filter (\<lambda>(k, v). \<not> startsWith k ''_'' \<and> isNonEmptyString v) r"
    using d ok by (intro filter_cong) (auto simp: hasData_slot)
  ultimately show ?thesis by (simp add: fieldsWithData_def nonEmptyFieldCount_def)
qed

lemma count_setMeta: "nonEmptyFieldCount (setMeta f r) = nonEmptyFieldCount r"
proof -
  let ?P = "\<lambda>(k, v). \<not> startsWith k ''_'' \<and> isNonEmptyString v"
  let ?g = "\<lambda>(k, v). if k = ''_extraction_metadata'' then (k, onMeta f v) else (k, v)"
  have "filter (?P \<circ> ?g) r = filter ?P r"
    by (rule filter_cong) (auto split: if_splits)
  then have "filter ?P (map ?g r) = map ?g (filter ?P r)"
    by (simp add: filter_map)
  then show ?thesis by (simp add: nonEmptyFieldCount_def setMeta_def)
qed

lemma map_of_setMeta:
  "map_of (setMeta f r) ''_extraction_metadata'' = map_option (onMeta f) (map_of r ''_extraction_metadata'')"
  by (induction r) (auto simp: setMeta_def)

lemma shaped_meta: "shaped r \<Longrightarrow> \<exists>m. map_of r ''_extraction_metadata'' = Some (JMeta m)"
proof -
  assume s: "shaped r"
  then have "''_extraction_metadata'' \<in> set (map fst r)" by (simp add: shaped_def)
  then obtain v where v: "(''_extraction_metadata'', v) \<in> set r" by auto
  with s have "slotOk (''_extraction_metadata'', v)" by (auto simp: shaped_def list_all_iff)
  then obtain m where "v = JMeta m" by (cases v) auto
  with v shaped_distinct [OF s] show ?thesis by auto
qed

lemma finalize_meta:
  assumes "shaped r"
  shows "\<exists>m. metaOf (finalize r) = Some m \<and> fields_extracted m = Some (nonEmptyFieldCount (finalize r))
           \<and> extraction_success m = Some (0 < nonEmptyFieldCount (finalize r))"
proof -
  obtain m0 where "map_of r ''_extraction_metadata'' = Some (JMeta m0)"
    using shaped_meta [OF assms] by blast
  then show ?thesis
    by (simp add: finalize_def Let_def metaOf_def map_of_setMeta count_setMeta
        fieldsWithData_count [OF assms])
qed

text \<open>
  C1. Every record the test produces carries, in its metadata, \<open>fields_extracted\<close> equal
  to the number of keys that do not start with an underscore and hold a string with a
  non-empty trimmed text, and \<open>extraction_success\<close> equal to "that number is positive".
\<close>

theorem fields_extracted_counts_nonempty:
  assumes "processCompany visit now c = Inr r"
  shows "\<exists>m. metaOf r = Some m \<and> fields_extracted m = Some (nonEmptyFieldCount r)
           \<and> extraction_success m = Some (0 < nonEmptyFieldCount r)"
proof -
  obtain url body where r: "r = finalize (extractCompanyFields body (initialRecord now c))"
    using assms by (auto simp: processCompany_def Let_def split: visit_outcome.splits if_splits)
  have "shaped (extractCompanyFields body (initialRecord now c))"
    by (simp add: extractCompanyFields_def shaped_extract shaped_initial)
  then show ?thesis unfolding r by (rule finalize_meta)
qed


theorem fields_extracted_counts_nonempty_witness:
  "processCompany demoVisit ''2024-01-01T00:00:00.000Z'' demoCompany
     = Inr (finalize (extractCompanyFields demoPage (initialRecord ''2024-01-01T00:00:00.000Z'' demoCompany)))
   \<and> (\<exists>m. metaOf (finalize (extractCompanyFields demoPage (initialRecord ''2024-01-01T00:00:00.000Z'' demoCompany))) = Some m
          \<and> fields_extracted m = Some 1 \<and> extraction_success m = Some True)"
proof -
  let ?r = "finalize (extractCompanyFields demoPage (initialRecord ''2024-01-01T00:00:00.000Z'' demoCompany))"
  have h: "processCompany demoVisit ''2024-01-01T00:00:00.000Z'' demoCompany = Inr ?r"
    by (simp add: processCompany_def demoVisit_def demoCompany_def)
  have n: "nonEmptyFieldCount ?r = 1"
    by code_simp
  show ?thesis
    using h fields_extracted_counts_nonempty [OF h] by (simp add: n)
qed

subsection \<open>The loop over the schema\<close>

lemma fields_keys_distinct: "distinct (map snd fields)"
  by (simp add: fields_def)


lemma map_of_extractField_other:
  "snd f \<noteq> k \<Longrightarrow> map_of (extractField resolve f r) k = map_of r k"
  by (simp add: extractField_def update_conv' split: option.splits)

lemma map_of_extractField_same:
  "map_of (extractField resolve (l, k) r) k = (case resolve l of Some v \<Rightarrow> Some (JStr v) | None \<Rightarrow> map_of r k)"
  by (simp add: extractField_def update_conv' split: option.splits)

lemma map_of_fold_other:
  "k \<notin> snd ` set fs \<Longrightarrow> map_of (fold (extractField resolve) fs r) k = map_of r k"
  by (induction fs arbitrary: r) (auto simp: map_of_extractField_other)

lemma map_of_fold_field:
  "distinct (map snd fs) \<Longrightarrow> (l, k) \<in> set fs \<Longrightarrow>
   map_of (fold (extractField resolve) fs r) k
     = (case resolve l of Some v \<Rightarrow> Some (JStr v) | None \<Rightarrow> map_of r k)"
proof (induction fs arbitrary: r)
  case Nil
  then show ?case by simp
next
  case (Cons f fs)
  show ?case
  proof (cases "f = (l, k)")
    case True
    then have "k \<notin> snd ` set fs" using Cons.prems(1) by auto
    then show ?thesis using True
      by (simp add: map_of_fold_other map_of_extractField_same)
  next
    case False
    then have in_fs: "(l, k) \<in> set fs" using Cons.prems(2) by auto
    then have "snd f \<noteq> k" using Cons.prems(1) by (auto simp: image_iff)
    then show ?thesis using Cons.IH [OF _ in_fs] Cons.prems(1)
      by (simp add: map_of_extractField_other split: option.splits)
  qed
qed

lemma stored_value:
  "(l, k) \<in> set fields \<Longrightarrow>
   map_of (extractFieldsWith resolve r) k
     = (case resolve l of Some v \<Rightarrow> Some (JStr v) | None \<Rightarrow> map_of r k)"
  unfolding extractFieldsWith_def by (rule map_of_fold_field [OF fields_keys_distinct])





subsection \<open>The time stamp\<close>

lemma setMeta_update:
  "k \<noteq> ''_extraction_metadata'' \<Longrightarrow>
   AList.update k (JStr v) (setMeta f r) = setMeta f (AList.update k (JStr v) r)"
  by (induction r) (auto simp: setMeta_def)

lemma setMeta_extractField:
  "f \<in> set fields \<Longrightarrow> extractField resolve f (setMeta g r) = setMeta g (extractField resolve f r)"
proof -
  assume "f \<in> set fields"
  then have "snd f \<noteq> ''_extraction_metadata''" by (auto simp: fields_def)
  then show ?thesis by (simp add: extractField_def setMeta_update split: option.splits)
qed

lemma setMeta_fold:
  "set fs \<subseteq> set fields \<Longrightarrow>
   fold (extractField resolve) fs (setMeta g r) = setMeta g (fold (extractField resolve) fs r)"
  by (induction fs arbitrary: r) (simp_all add: setMeta_extractField)

lemma setMeta_extract: "extractFieldsWith resolve (setMeta g r) = setMeta g (extractFieldsWith resolve r)"
  by (simp add: extractFieldsWith_def setMeta_fold)

lemma keys_setMeta: "map fst (setMeta g r) = map fst r"
  by (induction r) (auto simp: setMeta_def)

lemma map_of_setMeta_other:
  "k \<noteq> ''_extraction_metadata'' \<Longrightarrow> map_of (setMeta g r) k = map_of r k"
  by (induction r) (auto simp: setMeta_def)

lemma hasData_setMeta: "hasData (setMeta g r) k = hasData r k"
proof (cases "k = ''_extraction_metadata''")
  case True
  then show ?thesis by (simp add: hasData_def)
next
  case False
  then show ?thesis by (simp add: hasData_def map_of_setMeta_other)
qed

lemma fieldsWithData_setMeta: "fieldsWithData (setMeta g r) = fieldsWithData r"
  by (simp add: fieldsWithData_def keys_setMeta hasData_setMeta cong: filter_cong)

lemma setMeta_setMeta: "setMeta f (setMeta g r) = setMeta (f \<circ> g) r"
proof -
  have "onMeta f (onMeta g v) = onMeta (f \<circ> g) v" for v by (cases v) simp_all
  then show ?thesis by (induction r) (auto simp: setMeta_def)
qed

lemma metadata_updates_commute:
  "m\<lparr>extracted_at := t, fields_extracted := a, extraction_success := b\<rparr>
     = m\<lparr>fields_extracted := a, extraction_success := b, extracted_at := t\<rparr>"
  by (cases m) simp

lemma finalize_withExtractedAt: "finalize (withExtractedAt t r) = withExtractedAt t (finalize r)"
  by (simp add: finalize_def withExtractedAt_def Let_def fieldsWithData_setMeta setMeta_setMeta comp_def
      metadata_updates_commute)

lemma initialRecord_withExtractedAt: "initialRecord t2 c = withExtractedAt t2 (initialRecord t1 c)"
  by (simp add: initialRecord_def withExtractedAt_def setMeta_def)

text \<open>
  C6. Two extractions for the same company against the same pages differ only in the
  \<open>extracted_at\<close> field of the metadata: the outcome at time \<open>t2\<close> is the outcome at time
  \<open>t1\<close> with that one field replaced (and the same error when the test fails).
\<close>

theorem extraction_deterministic_up_to_timestamp:
  "processCompany visit t2 c = map_sum id (withExtractedAt t2) (processCompany visit t1 c)"
proof -
  have "finalize (extractCompanyFields body (initialRecord t2 c))
      = withExtractedAt t2 (finalize (extractCompanyFields body (initialRecord t1 c)))" for body
    unfolding extractCompanyFields_def
    by (subst initialRecord_withExtractedAt [of t2 c t1])
       (simp add: withExtractedAt_def setMeta_extract finalize_withExtractedAt [unfolded withExtractedAt_def])
  then show ?thesis
    by (simp add: processCompany_def Let_def split: visit_outcome.splits)
qed

subsection \<open>The run\<close>

lemma processAll_spec:
  "processAll visit clock i cs acc = (written, st) \<Longrightarrow>
   \<exists>ws. written = acc @ ws \<and> length ws \<le> length cs
      \<and> (\<forall>j < length ws. fst (ws ! j) = outputFile (cs ! j)
             \<and> processCompany visit (clock (i + j)) (cs ! j) = Inr (snd (ws ! j)))
      \<and> (case st of
            Passed \<Rightarrow> length ws = length cs
          | Failed e \<Rightarrow> length ws < length cs
              \<and> processCompany visit (clock (i + length ws)) (cs ! length ws) = Inl e)"
proof (induction cs arbitrary: i acc)
  case Nil
  then show ?case by auto
next
  case (Cons c cs)
  show ?case
  proof (cases "processCompany visit (clock i) c")
    case (Inl e)
    with Cons.prems have "written = acc" "st = Failed e" by auto
    with Inl show ?thesis by simp
  next
    case (Inr r)
    with Cons.prems
    have "processAll visit clock (Suc i) cs (acc @ [(outputFile c, r)]) = (written, st)" by simp
    from Cons.IH [OF this] obtain ws where
      w: "written = (acc @ [(outputFile c, r)]) @ ws" and
      l: "length ws \<le> length cs" and
      e: "\<forall>j < length ws. fst (ws ! j) = outputFile (cs ! j)
             \<and> processCompany visit (clock (Suc i + j)) (cs ! j) = Inr (snd (ws ! j))" and
      s: "case st of Passed \<Rightarrow> length ws = length cs
          | Failed e \<Rightarrow> length ws < length cs
              \<and> processCompany visit (clock (Suc i + length ws)) (cs ! length ws) = Inl e"
      by blast
    let ?ws = "(outputFile c, r) # ws"
    have "written = acc @ ?ws" using w by simp
    moreover have "length ?ws \<le> length (c # cs)" using l by simp
    moreover have "\<forall>j < length ?ws. fst (?ws ! j) = outputFile ((c # cs) ! j)
             \<and> processCompany visit (clock (i + j)) ((c # cs) ! j) = Inr (snd (?ws ! j))"
    proof (intro allI impI)
      fix j assume "j < length ?ws"
      then show "fst (?ws ! j) = outputFile ((c # cs) ! j)
             \<and> processCompany visit (clock (i + j)) ((c # cs) ! j) = Inr (snd (?ws ! j))"
        using e Inr by (cases j) auto
    qed
    moreover have "case st of Passed \<Rightarrow> length ?ws = length (c # cs)
          | Failed e \<Rightarrow> length ?ws < length (c # cs)
              \<and> processCompany visit (clock (i + length ?ws)) ((c # cs) ! length ?ws) = Inl e"
      using s by (cases st) auto
    ultimately show ?thesis by blast
  qed
qed

lemma processCompany_shape:
  assumes "processCompany visit now c = Inr r"
  shows "map fst r = map snd fields @ [''_extraction_metadata'']"
    and "(l, k) \<in> set fields \<Longrightarrow> visit (c_frontend_url c) = Loaded url body
          \<Longrightarrow> resolveField body l = None \<Longrightarrow> map_of r k = Some (JStr [])"
proof -
  obtain u b where v: "visit (c_frontend_url c) = Loaded u b"
    and r: "r = finalize (extractCompanyFields b (initialRecord now c))"
    using assms by (auto simp: processCompany_def Let_def split: visit_outcome.splits if_splits)
  have sh: "shaped (extractCompanyFields b (initialRecord now c))"
    by (simp add: extractCompanyFields_def shaped_extract shaped_initial)
  show "map fst r = map snd fields @ [''_extraction_metadata'']"
    using sh by (simp add: r finalize_def Let_def keys_setMeta shaped_def)
  assume f: "(l, k) \<in> set fields" and "visit (c_frontend_url c) = Loaded url body"
    and n: "resolveField body l = None"
  with v have b: "b = body" by simp
  have k: "k \<noteq> ''_extraction_metadata''" using f by (auto simp: fields_def)
  have "map_of (initialRecord now c) k = Some (JStr [])"
    using f by (auto simp: fields_def initialRecord_def)
  then have "map_of (extractCompanyFields body (initialRecord now c)) k = Some (JStr [])"
    by (simp add: extractCompanyFields_def stored_value [OF f] n)
  then show "map_of r k = Some (JStr [])"
    by (simp add: r b finalize_def Let_def map_of_setMeta_other [OF k])
qed

text \<open>
  C4. The files written are, in order, one for each company processed; each holds the
  record of that company, whose keys are the 15 keys of the schema followed by
  \<open>_extraction_metadata\<close> and nothing else, and a key whose label was not resolved on the
  page holds the empty string. A test that passes has written one record for every company.
\<close>

theorem one_schema_complete_record_per_company:
  assumes "runExtraction visit clock cs = (written, st)"
  shows "length (map snd fields) = 15
       \<and> length written \<le> length cs
       \<and> (st = Passed \<longrightarrow> length written = length cs)
       \<and> (\<forall>i < length written.
            fst (written ! i) = outputFile (cs ! i)
          \<and> processCompany visit (clock i) (cs ! i) = Inr (snd (written ! i))
          \<and> map fst (snd (written ! i)) = map snd fields @ [''_extraction_metadata'']
          \<and> (\<forall>(l, k) \<in> set fields. \<forall>url body.
                visit (c_frontend_url (cs ! i)) = Loaded url body \<longrightarrow> resolveField body l = None
                \<longrightarrow> map_of (snd (written ! i)) k = Some (JStr [])))"
proof -
  from processAll_spec [OF assms [unfolded runExtraction_def]]
  have l: "length written \<le> length cs"
    and e: "\<forall>j < length written. fst (written ! j) = outputFile (cs ! j)
             \<and> processCompany visit (clock j) (cs ! j) = Inr (snd (written ! j))"
    and s: "case st of Passed \<Rightarrow> length written = length cs | Failed e \<Rightarrow> length written < length cs"
    by (auto split: status.splits)
  have "st = Passed \<longrightarrow> length written = length cs" using s by (cases st) auto
  moreover have "length (map snd fields) = 15" by (simp add: fields_def)
  moreover have "\<forall>i < length written.
            fst (written ! i) = outputFile (cs ! i)
          \<and> processCompany visit (clock i) (cs ! i) = Inr (snd (written ! i))
          \<and> map fst (snd (written ! i)) = map snd fields @ [''_extraction_metadata'']
          \<and> (\<forall>(l, k) \<in> set fields. \<forall>url body.
                visit (c_frontend_url (cs ! i)) = Loaded url body \<longrightarrow> resolveField body l = None
                \<longrightarrow> map_of (snd (written ! i)) k = Some (JStr []))"
  proof (intro allI impI)
    fix i assume "i < length written"
    with e have f: "fst (written ! i) = outputFile (cs ! i)"
      and p: "processCompany visit (clock i) (cs ! i) = Inr (snd (written ! i))" by auto
    show "fst (written ! i) = outputFile (cs ! i)
          \<and> processCompany visit (clock i) (cs ! i) = Inr (snd (written ! i))
          \<and> map fst (snd (written ! i)) = map snd fields @ [''_extraction_metadata'']
          \<and> (\<forall>(l, k) \<in> set fields. \<forall>url body.
                visit (c_frontend_url (cs ! i)) = Loaded url body \<longrightarrow> resolveField body l = None
                \<longrightarrow> map_of (snd (written ! i)) k = Some (JStr []))"
      using f p processCompany_shape [OF p] by blast
  qed
  ultimately show ?thesis using l by blast
qed

theorem one_schema_complete_record_per_company_witness:
  "snd (runExtraction demoVisit (\<lambda>i. ''2024-01-01T00:00:00.000Z'') [demoCompany]) = Passed
   \<and> length (fst (runExtraction demoVisit (\<lambda>i. ''2024-01-01T00:00:00.000Z'') [demoCompany])) = 1
   \<and> map fst (snd (fst (runExtraction demoVisit (\<lambda>i. ''2024-01-01T00:00:00.000Z'') [demoCompany]) ! 0))
       = map snd fields @ [''_extraction_metadata'']
   \<and> map_of (snd (fst (runExtraction demoVisit (\<lambda>i. ''2024-01-01T00:00:00.000Z'') [demoCompany]) ! 0))
         ''location'' = Some (JStr [])"
proof -
  let ?run = "runExtraction demoVisit (\<lambda>i. ''2024-01-01T00:00:00.000Z'') [demoCompany]"
  have run: "?run = (fst ?run, snd ?run)" by simp
  have st: "snd ?run = Passed"
    by (simp add: runExtraction_def processCompany_def demoVisit_def demoCompany_def)
  have v: "demoVisit (c_frontend_url ([demoCompany] ! 0))
             = Loaded ''https://alphame.adgo.dev/company-detail/7'' demoPage"
    by (simp add: demoVisit_def demoCompany_def)
  have nf: "resolveField demoPage ''Location'' = None" by code_simp
  have f: "(''Location'', ''location'') \<in> set fields" by (simp add: fields_def)
  note spec = one_schema_complete_record_per_company [OF run]
  from spec st have len: "length (fst ?run) = 1" by simp
  then have "0 < length (fst ?run)" by simp
  with spec have
    keys: "map fst (snd (fst ?run ! 0)) = map snd fields @ [''_extraction_metadata'']" and
    unres: "\<forall>(l, k) \<in> set fields. \<forall>url body.
                demoVisit (c_frontend_url ([demoCompany] ! 0)) = Loaded url body
                \<longrightarrow> resolveField body l = None
                \<longrightarrow> map_of (snd (fst ?run ! 0)) k = Some (JStr [])"
    by blast+
  from unres f v nf have "map_of (snd (fst ?run ! 0)) ''location'' = Some (JStr [])"
    by blast
  with st len keys show ?thesis by simp
qed





text \<open>
  C3 at a card where the broad match precedes the structural match in the document: the
  selector list is one selector, jQuery returns its matches in document order, and
  \<open>first()\<close> takes the broad match although a structural match is in the container.
\<close>

theorem selector_list_takes_document_order:
  "resolveField orderPage ''Industry'' = Some ''Broad''
   \<and> map (\<lambda>h. textContent (snd h))
         (jq_find orderPage structuralSel
            (jq_closest orderPage containerSel
               (jq_find orderPage (labelSel ''Industry'') [([], orderPage)])))
       = [''Structural'']"
  by code_simp



subsection \<open>Paths\<close>

lemma splitSlash_plain: "CHR ''/'' \<notin> set n \<Longrightarrow> splitSlash cur n = [cur @ n]"
  by (induction n arbitrary: cur) auto

lemma fold_normalizeStep_ok:
  "\<forall>s \<in> set segs. okSeg s \<Longrightarrow> fold normalizeStep segs acc = acc @ segs"
  by (induction segs arbitrary: acc) (auto simp: normalizeStep_def okSeg_def)

lemma fold_normalizeStep_keeps_ok:
  "\<forall>s \<in> set acc. okSeg s \<Longrightarrow> \<forall>s \<in> set (fold normalizeStep segs acc). okSeg s"
proof (induction segs arbitrary: acc)
  case Nil
  then show ?case by simp
next
  case (Cons x segs)
  have "\<forall>s \<in> set (normalizeStep x acc). okSeg s"
    using Cons.prems by (auto simp: normalizeStep_def okSeg_def dest: in_set_butlastD)
  then show ?case using Cons.IH by simp
qed

lemma normalizeSegs_ok: "\<forall>s \<in> set (normalizeSegs d). okSeg s"
  unfolding normalizeSegs_def by (rule fold_normalizeStep_keeps_ok) simp

lemma pathJoin_plain:
  assumes "\<forall>s \<in> set d. okSeg s" "plainName n"
  shows "pathJoin d n = d @ [n]"
proof -
  have "\<forall>s \<in> set (d @ [n]). okSeg s" using assms by (simp add: plainName_def)
  then have "fold normalizeStep (d @ [n]) [] = [] @ (d @ [n])"
    by (rule fold_normalizeStep_ok)
  then show ?thesis using assms(2)
    by (simp add: pathJoin_def normalizeSegs_def splitSlash_plain plainName_def)
qed

subsection \<open>clearDownloads\<close>

lemma removeName_apply:
  "removeName g d f p =
     (if p = d then (case g d of Some (DirNode t ns) \<Rightarrow> Some (DirNode t (removeAll f ns)) | x \<Rightarrow> x)
      else g p)"
  by (auto simp: removeName_def split: option.splits fnode.splits)

lemma setDirTime_apply:
  "setDirTime now g d p =
     (if p = d then (case g d of Some (DirNode t ns) \<Rightarrow> Some (DirNode now ns) | x \<Rightarrow> x)
      else g p)"
  by (auto simp: setDirTime_def split: option.splits fnode.splits)

lemma clearLoop_inv:
  assumes "clearLoop now refuses d files fs = (out, fs')"
    and "fs d = Some (DirNode t ns)"
    and "\<forall>f \<in> set files. plainName f"
    and "\<forall>s \<in> set d. okSeg s"
  shows "(\<exists>t' ns'. fs' d = Some (DirNode t' ns') \<and> set ns' \<subseteq> set ns
            \<and> (\<forall>n \<in> set ns. n \<notin> set ns' \<longrightarrow> isFileAt fs (d @ [n]) \<and> fs' (d @ [n]) = None))
       \<and> (\<forall>p. p \<noteq> d \<longrightarrow> fs' p \<noteq> fs p \<longrightarrow> butlast p = d \<and> p \<noteq> [] \<and> isFileAt fs p \<and> fs' p = None)"
  using assms
proof (induction files arbitrary: fs ns t)
  case Nil
  then show ?case by auto
next
  case (Cons entry files)
  have pj: "pathJoin d entry = d @ [entry]"
    using Cons.prems(3,4) by (simp add: pathJoin_plain)
  show ?case
  proof (cases "fs (d @ [entry])")
    case None
    then have "fs' = fs" using Cons.prems(1) by (simp add: pj statSync_def)
    then show ?thesis using Cons.prems(2) by auto
  next
    case (Some n)
    show ?thesis
    proof (cases n)
      case (DirNode t' ns')
      with Some have "clearLoop now refuses d files fs = (out, fs')"
        using Cons.prems(1) by (simp add: pj statSync_def)
      from Cons.IH [OF this Cons.prems(2)] Cons.prems(3,4) show ?thesis by simp
    next
      case (FileNode t' w c)
      show ?thesis
      proof (cases "refuses (d @ [entry])")
        case (Some e)
        then have "fs' = fs"
          using Cons.prems(1) \<open>fs (d @ [entry]) = Some n\<close> FileNode
          by (simp add: pj statSync_def unlinkSync_def)
        then show ?thesis using Cons.prems(2) by auto
      next
        case None
      define fs1 where "fs1 = setDirTime now (removeName (fs(d @ [entry] := None)) d entry) d"
      have run: "clearLoop now refuses d files fs1 = (out, fs')"
        using Cons.prems(1) \<open>fs (d @ [entry]) = Some n\<close> FileNode None
        by (simp add: pj statSync_def unlinkSync_def fs1_def)
      have fs1_d: "fs1 d = Some (DirNode now (removeAll entry ns))"
        using Cons.prems(2) by (simp add: fs1_def removeName_apply setDirTime_apply)
      have fs1_entry: "fs1 (d @ [entry]) = None"
        by (simp add: fs1_def removeName_apply setDirTime_apply)
      have fs1_other: "fs1 p = fs p" if "p \<noteq> d" "p \<noteq> d @ [entry]" for p
        using that by (simp add: fs1_def removeName_apply setDirTime_apply)
      have entry_at: "isFileAt fs (d @ [entry])"
        using \<open>fs (d @ [entry]) = Some n\<close> FileNode by (simp add: isFileAt_def)
      from Cons.IH [OF run fs1_d] Cons.prems(3,4)
      obtain t2 ns2 where
        a: "fs' d = Some (DirNode t2 ns2)" and
        b: "set ns2 \<subseteq> set (removeAll entry ns)" and
        c: "\<forall>n \<in> set (removeAll entry ns). n \<notin> set ns2 \<longrightarrow> isFileAt fs1 (d @ [n]) \<and> fs' (d @ [n]) = None" and
        e: "\<forall>p. p \<noteq> d \<longrightarrow> fs' p \<noteq> fs1 p \<longrightarrow> butlast p = d \<and> p \<noteq> [] \<and> isFileAt fs1 p \<and> fs' p = None"
        by auto
      have gone: "fs' (d @ [entry]) = None"
      proof (rule ccontr)
        assume "fs' (d @ [entry]) \<noteq> None"
        then have "fs' (d @ [entry]) \<noteq> fs1 (d @ [entry])" using fs1_entry by simp
        with e have "isFileAt fs1 (d @ [entry])" by simp
        then show False using fs1_entry by (simp add: isFileAt_def)
      qed
      have at1: "isFileAt fs p" if "isFileAt fs1 p" "p \<noteq> d" for p
      proof -
        have "p \<noteq> d @ [entry]" using that(1) fs1_entry by (auto simp: isFileAt_def)
        then show ?thesis using that fs1_other [of p] by (simp add: isFileAt_def)
      qed
      have first: "\<exists>t' ns'. fs' d = Some (DirNode t' ns') \<and> set ns' \<subseteq> set ns
            \<and> (\<forall>n \<in> set ns. n \<notin> set ns' \<longrightarrow> isFileAt fs (d @ [n]) \<and> fs' (d @ [n]) = None)"
      proof (intro exI conjI ballI impI)
        show "fs' d = Some (DirNode t2 ns2)" by (rule a)
        show "set ns2 \<subseteq> set ns" using b by auto
      next
        fix n assume n: "n \<in> set ns" "n \<notin> set ns2"
        show "isFileAt fs (d @ [n])"
        proof (cases "n = entry")
          case True
          then show ?thesis using entry_at by simp
        next
          case False
          with n c have "isFileAt fs1 (d @ [n])" by simp
          then show ?thesis by (rule at1) simp
        qed
        show "fs' (d @ [n]) = None"
        proof (cases "n = entry")
          case True
          then show ?thesis using gone by simp
        next
          case False
          with n c show ?thesis by simp
        qed
      qed
      have second: "\<forall>p. p \<noteq> d \<longrightarrow> fs' p \<noteq> fs p \<longrightarrow> butlast p = d \<and> p \<noteq> [] \<and> isFileAt fs p \<and> fs' p = None"
      proof (intro allI impI)
        fix p assume p: "p \<noteq> d" "fs' p \<noteq> fs p"
        show "butlast p = d \<and> p \<noteq> [] \<and> isFileAt fs p \<and> fs' p = None"
        proof (cases "p = d @ [entry]")
          case True
          then show ?thesis using entry_at gone by simp
        next
          case False
          with p have "fs' p \<noteq> fs1 p" using fs1_other [of p] by simp
          with e p(1) have "butlast p = d \<and> p \<noteq> [] \<and> isFileAt fs1 p \<and> fs' p = None" by simp
          then show ?thesis using at1 [of p] p(1) by simp
        qed
      qed
      from first second show ?thesis by blast
      qed
    qed
  qed
qed

text \<open>
  C10. Whatever the task changes is the node of the downloads folder itself (its listing
  and its time) or a regular file directly inside it, which is gone afterwards; every
  other path, so every subdirectory and all below it, is as before, and the listing loses
  only names of regular files. When the folder does not exist the task returns \<open>null\<close>
  and changes nothing.
\<close>

theorem clearDownloads_deletes_only_files_inside:
  assumes run: "clearDownloads now refuses downloadsFolder fs = (out, fs')"
    and names: "\<forall>t ns. fs (normalizeSegs downloadsFolder) = Some (DirNode t ns) \<longrightarrow> (\<forall>n \<in> set ns. plainName n)"
  shows "(\<forall>p. fs' p \<noteq> fs p \<longrightarrow>
            p = normalizeSegs downloadsFolder
          \<or> (butlast p = normalizeSegs downloadsFolder \<and> p \<noteq> [] \<and> isFileAt fs p \<and> fs' p = None))
       \<and> (\<forall>t ns. fs (normalizeSegs downloadsFolder) = Some (DirNode t ns) \<longrightarrow>
             (\<exists>t' ns'. fs' (normalizeSegs downloadsFolder) = Some (DirNode t' ns') \<and> set ns' \<subseteq> set ns
                \<and> (\<forall>n \<in> set ns. n \<notin> set ns' \<longrightarrow> isFileAt fs (normalizeSegs downloadsFolder @ [n]))))
       \<and> (fs (normalizeSegs downloadsFolder) = None \<longrightarrow> out = ReturnedNull \<and> fs' = fs)"
proof (cases "fs (normalizeSegs downloadsFolder)")
  case None
  then have "out = ReturnedNull" "fs' = fs"
    using run by (simp_all add: clearDownloads_def existsSync_def)
  then show ?thesis using None by simp
next
  case (Some n)
  show ?thesis
  proof (cases n)
    case (FileNode t w c)
    then have "fs' = fs"
      using run Some by (simp add: clearDownloads_def existsSync_def readdirSync_def)
    then show ?thesis using Some FileNode by simp
  next
    case (DirNode t ns)
    with Some have d: "fs (normalizeSegs downloadsFolder) = Some (DirNode t ns)" by simp
    then have loop: "clearLoop now refuses (normalizeSegs downloadsFolder) ns fs = (out, fs')"
      using run by (simp add: clearDownloads_def existsSync_def readdirSync_def)
    have pl: "\<forall>f \<in> set ns. plainName f" using names d by blast
    from clearLoop_inv [OF loop d pl normalizeSegs_ok] d show ?thesis by auto
  qed
qed

theorem clearDownloads_deletes_only_files_inside_witness:
  "fst (clearDownloads 99 (\<lambda>p. None) demoDownloads demoFs) = ReturnedNull
   \<and> snd (clearDownloads 99 (\<lambda>p. None) demoDownloads demoFs) (demoDownloads @ [''keep'', ''inner.pdf''])
       = demoFs (demoDownloads @ [''keep'', ''inner.pdf''])
   \<and> snd (clearDownloads 99 (\<lambda>p. None) demoDownloads demoFs) (demoDownloads @ [''keep''])
       = demoFs (demoDownloads @ [''keep''])
   \<and> snd (clearDownloads 99 (\<lambda>p. None) demoDownloads demoFs) (demoDownloads @ [''old.pdf'']) = None"
proof -
  let ?run = "clearDownloads 99 (\<lambda>p. None) demoDownloads demoFs"
  have run: "?run = (fst ?run, snd ?run)" by simp
  have d: "normalizeSegs demoDownloads = demoDownloads"
    by (simp add: demoDownloads_def normalizeSegs_def normalizeStep_def)
  have l: "demoFs demoDownloads = Some (DirNode 40 [''old.pdf'', ''memo.PDF'', ''notes.txt'', ''keep''])"
    by (simp add: demoFs_def demoDownloads_def)
  have names: "\<forall>t ns. demoFs (normalizeSegs demoDownloads) = Some (DirNode t ns)
                 \<longrightarrow> (\<forall>n \<in> set ns. plainName n)"
    by (simp add: d l plainName_def okSeg_def)
  have k: "isFileAt demoFs (demoDownloads @ [''keep'']) = False"
    by (simp add: demoFs_def demoDownloads_def isFileAt_def)
  have out: "fst ?run = ReturnedNull" by code_simp
  have old: "snd ?run (demoDownloads @ [''old.pdf'']) = None" by code_simp
  from clearDownloads_deletes_only_files_inside [OF run names]
  have frame: "\<forall>p. snd ?run p \<noteq> demoFs p \<longrightarrow>
            p = demoDownloads
          \<or> (butlast p = demoDownloads \<and> p \<noteq> [] \<and> isFileAt demoFs p \<and> snd ?run p = None)"
    by (simp add: d)
  have "snd ?run (demoDownloads @ [''keep'', ''inner.pdf'']) = demoFs (demoDownloads @ [''keep'', ''inner.pdf''])"
    using frame [rule_format, of "demoDownloads @ [''keep'', ''inner.pdf'']"]
    by (auto simp: demoDownloads_def)
  moreover have "snd ?run (demoDownloads @ [''keep'']) = demoFs (demoDownloads @ [''keep''])"
    using frame [rule_format, of "demoDownloads @ [''keep'']"] k
    by (auto simp: demoDownloads_def)
  ultimately show ?thesis using out old by simp
qed

subsection \<open>moveDownloadedFile\<close>

lemma addName_apply:
  "addName g d f p =
     (if p = d then (case g d of Some (DirNode t ns) \<Rightarrow> Some (DirNode t (if f \<in> set ns then ns else ns @ [f])) | x \<Rightarrow> x)
      else g p)"
  by (auto simp: addName_def split: option.splits fnode.splits)

lemma isPrefix_refl [simp]: "isPrefix p p"
  by (simp add: isPrefix_def)

lemma isPrefix_Nil [simp]: "isPrefix [] p"
  by (simp add: isPrefix_def)

lemma isPrefix_butlast [simp]: "isPrefix (butlast p) p"
  by (simp add: isPrefix_def butlast_conv_take)

lemma moved_dst:
  assumes "\<not> isPrefix dst src" "\<not> isPrefix src dst"
  shows "moved fs src dst dst = fs src" and "moved fs src dst src = None"
proof -
  have "dst \<noteq> []" "src \<noteq> []" using assms by auto
  then have a: "butlast dst \<noteq> dst" "butlast src \<noteq> src"
    by (metis length_butlast length_greater_0_conv diff_less zero_less_one less_irrefl)+
  have b: "butlast src \<noteq> dst" "butlast dst \<noteq> src" using assms isPrefix_butlast by metis+
  show "moved fs src dst dst = fs src"
    using a b by (simp add: moved_def addName_apply removeName_apply)
  show "moved fs src dst src = None"
    using a b assms by (simp add: moved_def addName_apply removeName_apply)
qed

lemma renameSync_spec:
  assumes "renameSync fs src dst = Inr fs2"
  shows "fs src \<noteq> None \<and> fs2 dst = fs src \<and> (src \<noteq> dst \<longrightarrow> fs2 src = None)"
proof (cases "src = dst")
  case True
  then show ?thesis using assms by (auto simp: renameSync_def Let_def split: option.splits)
next
  case False
  obtain n where n: "fs src = Some n"
    using assms by (auto simp: renameSync_def Let_def split: option.splits)
  have np: "\<not> isPrefix src dst" "\<not> isPrefix dst src"
    using assms n False by (auto simp: renameSync_def Let_def split: if_splits)
  have "fs2 = moved fs src dst"
    using assms n False np
    by (auto simp: renameSync_def Let_def split: option.splits fnode.splits if_splits)
  then show ?thesis using n False moved_dst [OF np(2) np(1)] by simp
qed

lemma list_all2_right: "list_all2 P xs ys \<Longrightarrow> y \<in> set ys \<Longrightarrow> \<exists>x \<in> set xs. P x y"
  by (induction rule: list_all2_induct) auto

lemma list_all2_left: "list_all2 P xs ys \<Longrightarrow> x \<in> set xs \<Longrightarrow> \<exists>y \<in> set ys. P x y"
  by (induction rule: list_all2_induct) auto

lemma statAll_spec:
  "statAll fs d names = Inr fl \<Longrightarrow>
   list_all2 (\<lambda>name f. df_path f = pathJoin d name
                \<and> (\<exists>n. fs (pathJoin d name) = Some n \<and> df_mtime f = mtime n)) names fl"
proof (induction names arbitrary: fl)
  case Nil
  then show ?case by simp
next
  case (Cons name names)
  then show ?case
    by (auto simp: statSync_def split: sum.splits option.splits)
qed

lemma newestFirst_hd:
  assumes "newestFirst fl = x # rest"
  shows "x \<in> set fl \<and> (\<forall>f \<in> set fl. df_mtime f \<le> df_mtime x)"
proof -
  have s: "set (x # rest) = set fl"
    using assms [symmetric] by (simp add: newestFirst_def)
  have "sorted (map (\<lambda>f. - df_mtime f) (x # rest))"
    using assms [symmetric] by (simp add: newestFirst_def)
  then have "\<forall>f \<in> set rest. df_mtime f \<le> df_mtime x" by auto
  then show ?thesis using s by auto
qed

text \<open>
  C8. The task always returns a result. A result with \<open>success\<close> true names the file
  \<open><companyName>_Investment_Memo.pdf\<close>, and the node now at that name in the target
  folder is one of the entries of the downloads folder whose name ends in \<open>.pdf\<close>
  (in any case), with a modification time not before that of any other such entry; it is
  no longer at its old path. A result with \<open>success\<close> false carries an error and no file
  name; with no such entry in the downloads folder the result is the error
  \<open>No PDF file found in downloads\<close> and nothing is moved.
\<close>

theorem moveDownloadedFile_moves_newest_pdf:
  assumes run: "moveDownloadedFile now downloadsFolder cwd companyName targetFolder fs = (res, fs')"
  shows "(mr_success res \<longrightarrow>
            mr_filename res = Some (companyName @ ''_Investment_Memo.pdf'') \<and> mr_error res = None
          \<and> (\<exists>fs1 names file n.
                ensureFolder now fs (pathJoin cwd targetFolder) = (None, fs1)
              \<and> readdirSync fs1 downloadsFolder = Inr names
              \<and> file \<in> set names \<and> isPdfName file
              \<and> fs1 (pathJoin downloadsFolder file) = Some n
              \<and> (\<forall>g \<in> set names. isPdfName g \<longrightarrow>
                    (\<forall>m. fs1 (pathJoin downloadsFolder g) = Some m \<longrightarrow> mtime m \<le> mtime n))
              \<and> fs' (pathJoin (pathJoin cwd targetFolder) (companyName @ ''_Investment_Memo.pdf'')) = Some n
              \<and> (pathJoin downloadsFolder file
                    \<noteq> pathJoin (pathJoin cwd targetFolder) (companyName @ ''_Investment_Memo.pdf'')
                  \<longrightarrow> fs' (pathJoin downloadsFolder file) = None)))
       \<and> (\<not> mr_success res \<longrightarrow> mr_error res \<noteq> None \<and> mr_filename res = None)
       \<and> (\<forall>fs1 names.
             ensureFolder now fs (pathJoin cwd targetFolder) = (None, fs1)
           \<and> readdirSync fs1 downloadsFolder = Inr names
           \<and> filter isPdfName names = []
           \<longrightarrow> res = moveFailed ''No PDF file found in downloads'' \<and> fs' = fs1)"
proof (intro conjI impI allI)
  assume ok: "mr_success res"
  let ?target = "pathJoin (pathJoin cwd targetFolder) (companyName @ ''_Investment_Memo.pdf'')"
  from run ok obtain fs1 names unsorted x rest where
    e: "ensureFolder now fs (pathJoin cwd targetFolder) = (None, fs1)" and
    r: "readdirSync fs1 downloadsFolder = Inr names" and
    s: "statAll fs1 downloadsFolder (filter isPdfName names) = Inr unsorted" and
    h: "newestFirst unsorted = x # rest" and
    m: "renameSync fs1 (df_path x) ?target = Inr fs'" and
    res: "res = \<lparr>mr_success = True, mr_filename = Some (companyName @ ''_Investment_Memo.pdf''),
                 mr_fullPath = Some (showPath ?target), mr_error = None\<rparr>"
    by (auto simp: moveDownloadedFile_def Let_def moveFailed_def
        split: prod.splits option.splits sum.splits list.splits)
  show "mr_filename res = Some (companyName @ ''_Investment_Memo.pdf'')" by (simp add: res)
  show "mr_error res = None" by (simp add: res)
  note all = statAll_spec [OF s]
  from newestFirst_hd [OF h] have xin: "x \<in> set unsorted"
    and xmax: "\<forall>f \<in> set unsorted. df_mtime f \<le> df_mtime x" by auto
  from list_all2_right [OF all xin] obtain pdf n where
    f: "pdf \<in> set (filter isPdfName names)" and
    p: "df_path x = pathJoin downloadsFolder pdf" and
    n: "fs1 (pathJoin downloadsFolder pdf) = Some n" and
    t: "df_mtime x = mtime n"
    by auto
  have newest: "\<forall>g \<in> set names. isPdfName g \<longrightarrow>
                    (\<forall>m. fs1 (pathJoin downloadsFolder g) = Some m \<longrightarrow> mtime m \<le> mtime n)"
  proof (intro ballI impI allI)
    fix g k assume "g \<in> set names" "isPdfName g" and k: "fs1 (pathJoin downloadsFolder g) = Some k"
    then have "g \<in> set (filter isPdfName names)" by simp
    from list_all2_left [OF all this] obtain y where "y \<in> set unsorted"
      "\<exists>n. fs1 (pathJoin downloadsFolder g) = Some n \<and> df_mtime y = mtime n"
      by auto
    with k xmax t show "mtime k \<le> mtime n" by auto
  qed
  from renameSync_spec [OF m] p n
  have "fs' ?target = Some n"
    and "pathJoin downloadsFolder pdf \<noteq> ?target \<longrightarrow> fs' (pathJoin downloadsFolder pdf) = None"
    by auto
  with e r f n newest
  show "\<exists>fs1 names file n.
                ensureFolder now fs (pathJoin cwd targetFolder) = (None, fs1)
              \<and> readdirSync fs1 downloadsFolder = Inr names
              \<and> file \<in> set names \<and> isPdfName file
              \<and> fs1 (pathJoin downloadsFolder file) = Some n
              \<and> (\<forall>g \<in> set names. isPdfName g \<longrightarrow>
                    (\<forall>m. fs1 (pathJoin downloadsFolder g) = Some m \<longrightarrow> mtime m \<le> mtime n))
              \<and> fs' ?target = Some n
              \<and> (pathJoin downloadsFolder file \<noteq> ?target
                  \<longrightarrow> fs' (pathJoin downloadsFolder file) = None)"
    by (intro exI [of _ fs1] exI [of _ names] exI [of _ pdf] exI [of _ n]) simp
next
  assume "\<not> mr_success res"
  with run show "mr_error res \<noteq> None" "mr_filename res = None"
    by (auto simp: moveDownloadedFile_def Let_def moveFailed_def
        split: prod.splits option.splits sum.splits list.splits)
next
  fix fs1 names
  assume a: "ensureFolder now fs (pathJoin cwd targetFolder) = (None, fs1)
           \<and> readdirSync fs1 downloadsFolder = Inr names
           \<and> filter isPdfName names = []"
  with run show "res = moveFailed ''No PDF file found in downloads''" "fs' = fs1"
    by (simp_all add: moveDownloadedFile_def Let_def newestFirst_def)
qed


theorem moveDownloadedFile_moves_newest_pdf_witness:
  "mr_success (fst (moveDownloadedFile 99 demoDownloads demoCwd ''Acme'' ''data/ai_outputs'' demoFs))
   \<and> mr_filename (fst (moveDownloadedFile 99 demoDownloads demoCwd ''Acme'' ''data/ai_outputs'' demoFs))
       = Some ''Acme_Investment_Memo.pdf''
   \<and> snd (moveDownloadedFile 99 demoDownloads demoCwd ''Acme'' ''data/ai_outputs'' demoFs)
         [''home'', ''qa'', ''data'', ''ai_outputs'', ''Acme_Investment_Memo.pdf'']
       = Some (FileNode 30 True (Raw ''new''))
   \<and> snd (moveDownloadedFile 99 demoDownloads demoCwd ''Acme'' ''data/ai_outputs'' demoFs)
         [''home'', ''qa'', ''cypress'', ''downloads'', ''memo.PDF''] = None"
proof -
  let ?run = "moveDownloadedFile 99 demoDownloads demoCwd ''Acme'' ''data/ai_outputs'' demoFs"
  have run: "?run = (fst ?run, snd ?run)" by simp
  have ok: "mr_success (fst ?run)" by code_simp
  have at: "snd ?run [''home'', ''qa'', ''data'', ''ai_outputs'', ''Acme_Investment_Memo.pdf'']
              = Some (FileNode 30 True (Raw ''new''))"
    by code_simp
  have gone: "snd ?run [''home'', ''qa'', ''cypress'', ''downloads'', ''memo.PDF''] = None"
    by code_simp
  from moveDownloadedFile_moves_newest_pdf [OF run] ok
  have "mr_filename (fst ?run) = Some (''Acme'' @ ''_Investment_Memo.pdf'')" by blast
  with ok at gone show ?thesis by simp
qed

subsection \<open>updateConfigWithMemoPath\<close>

lemma showNat_2: "showNat 2 = ''2''"
  by code_simp

lemma showNat_Suc_Suc_0: "showNat (Suc (Suc 0)) = ''2''"
  using showNat_2 by (simp add: numeral_2_eq_2)

lemma fold_normalizeStep_append:
  "fold normalizeStep (a @ b) acc = fold normalizeStep b (fold normalizeStep a acc)"
  by simp

lemma pathJoin_fixtures:
  "pathJoin cwd ''cypress/fixtures/config.json'' = normalizeSegs cwd @ [''cypress'', ''fixtures'', ''config.json'']"
  by (simp add: pathJoin_def normalizeSegs_def normalizeStep_def)

lemma pathJoin_root_config:
  "pathJoin cwd ''config.json'' = normalizeSegs cwd @ [''config.json'']"
  by (simp add: pathJoin_def normalizeSegs_def normalizeStep_def)

lemma config_paths_differ:
  "pathJoin cwd ''cypress/fixtures/config.json'' \<noteq> pathJoin cwd ''config.json''"
  by (simp add: pathJoin_fixtures pathJoin_root_config)

lemma patchConfig_path: "pe_path (fst (patchConfig now cwd companyName configPath fs)) = configPath"
  by (simp add: patchConfig_def Let_def patchFailed_def
      split: sum.splits json_doc.splits option.splits)

lemma patchConfig_entry:
  "patchConfig now cwd companyName configPath fs = (e, fs') \<Longrightarrow>
   (pe_success e \<longrightarrow> pe_message e \<noteq> None \<and> pe_error e = None)
   \<and> (\<not> pe_success e \<longrightarrow> pe_error e \<noteq> None \<and> pe_message e = None)"
  by (auto simp: patchConfig_def Let_def patchFailed_def
      split: sum.splits json_doc.splits option.splits if_splits)

lemma patchConfig_missing:
  "fs (pathJoin cwd configPath) = None \<Longrightarrow>
   patchConfig now cwd companyName configPath fs
     = (patchFailed configPath (''File does not exist: '' @ configPath), fs)"
  by (simp add: patchConfig_def existsSync_def)

lemma find_name:
  "companyName \<in> c_name ` set cs \<Longrightarrow> \<exists>c. List.find (\<lambda>c. c_name c = companyName) cs = Some c"
  by (cases "List.find (\<lambda>c. c_name c = companyName) cs") (auto simp: find_None_iff)

lemma patchConfig_good:
  assumes "fs (pathJoin cwd configPath) = Some (FileNode t True (Json (ConfigDoc cs)))"
    and "companyName \<in> c_name ` set cs"
  shows "\<exists>e fs'. patchConfig now cwd companyName configPath fs = (e, fs') \<and> pe_success e
           \<and> (\<forall>p. p \<noteq> pathJoin cwd configPath \<longrightarrow> fs' p = fs p)"
proof -
  obtain c where "List.find (\<lambda>c. c_name c = companyName) cs = Some c"
    using find_name [OF assms(2)] by blast
  then show ?thesis using assms(1)
    by (simp add: patchConfig_def Let_def existsSync_def readJson_def writeJson_def)
qed

lemma patchConfig_frame:
  "patchConfig now cwd companyName configPath fs = (e, fs') \<Longrightarrow>
   p \<noteq> pathJoin cwd configPath \<Longrightarrow> fs' p = fs p"
  by (auto simp: patchConfig_def Let_def writeJson_def existsSync_def
      split: sum.splits json_doc.splits option.splits if_splits fnode.splits)

lemma update_unfold:
  assumes "updateConfigWithMemoPath now cwd companyName fs = (report, fs')"
  obtains e1 fs1 e2 where
    "patchConfig now cwd companyName ''cypress/fixtures/config.json'' fs = (e1, fs1)"
    "patchConfig now cwd companyName ''config.json'' fs1 = (e2, fs')"
    "pr_results report = [e1, e2]"
    "pr_successCount report = length (filter pe_success [e1, e2])"
    "pr_success report = (0 < pr_successCount report)"
    "pr_totalFiles report = 2"
    "pr_summary report = ''Updated '' @ showNat (pr_successCount report) @ ''/2 config files for '' @ companyName"
proof -
  obtain e1 fs1 where a: "patchConfig now cwd companyName ''cypress/fixtures/config.json'' fs = (e1, fs1)"
    by (cases "patchConfig now cwd companyName ''cypress/fixtures/config.json'' fs")
  obtain e2 fs2 where b: "patchConfig now cwd companyName ''config.json'' fs1 = (e2, fs2)"
    by (cases "patchConfig now cwd companyName ''config.json'' fs1")
  have "updateConfigWithMemoPath now cwd companyName fs =
         (\<lparr>pr_success = length (filter pe_success [e1, e2]) > 0,
           pr_totalFiles = 2,
           pr_successCount = length (filter pe_success [e1, e2]),
           pr_results = [e1, e2],
           pr_summary = ''Updated '' @ showNat (length (filter pe_success [e1, e2])) @ ''/2 config files for '' @ companyName\<rparr>, fs2)"
    unfolding updateConfigWithMemoPath_def configPaths_def
    by (simp add: a b Let_def showNat_Suc_Suc_0)
  with assms have rep: "report = \<lparr>pr_success = length (filter pe_success [e1, e2]) > 0,
           pr_totalFiles = 2,
           pr_successCount = length (filter pe_success [e1, e2]),
           pr_results = [e1, e2],
           pr_summary = ''Updated '' @ showNat (length (filter pe_success [e1, e2])) @ ''/2 config files for '' @ companyName\<rparr>" and fs: "fs' = fs2"
    by simp_all
  show ?thesis
  proof (rule that [OF a])
    show "patchConfig now cwd companyName ''config.json'' fs1 = (e2, fs')" using b fs by simp
    show "pr_results report = [e1, e2]" by (simp add: rep)
    show "pr_successCount report = length (filter pe_success [e1, e2])" by (simp add: rep)
    show "pr_success report = (0 < pr_successCount report)" by (simp add: rep)
    show "pr_totalFiles report = 2" by (simp add: rep)
    show "pr_summary report = ''Updated '' @ showNat (pr_successCount report) @ ''/2 config files for '' @ companyName" by (simp add: rep)
  qed
qed

text \<open>
  C9. The \<open>success\<close> flag of the report is true exactly when \<open>successCount\<close> is positive,
  that is, when at least one entry of the report is a success; so a report of 1 of 2 has
  \<open>success\<close> true.
\<close>

theorem report_success_iff_some_updated:
  assumes "updateConfigWithMemoPath now cwd companyName fs = (report, fs')"
  shows "pr_success report = (0 < pr_successCount report)
       \<and> pr_successCount report = length (filter pe_success (pr_results report))
       \<and> (pr_success report \<longleftrightarrow> (\<exists>e \<in> set (pr_results report). pe_success e))
       \<and> (pr_successCount report = 1 \<longrightarrow> pr_totalFiles report = 2 \<and> pr_success report)"
proof -
  from assms obtain e1 fs1 e2 where
    r: "pr_results report = [e1, e2]" and
    c: "pr_successCount report = length (filter pe_success [e1, e2])" and
    s: "pr_success report = (0 < pr_successCount report)" and
    t: "pr_totalFiles report = 2"
    by (rule update_unfold)
  show ?thesis using r c s t by auto
qed

theorem report_success_iff_some_updated_witness:
  "pr_successCount (fst (updateConfigWithMemoPath 99 demoCwd ''Acme'' demoFs)) = 1
   \<and> pr_totalFiles (fst (updateConfigWithMemoPath 99 demoCwd ''Acme'' demoFs)) = 2
   \<and> pr_success (fst (updateConfigWithMemoPath 99 demoCwd ''Acme'' demoFs))"
proof -
  let ?run = "updateConfigWithMemoPath 99 demoCwd ''Acme'' demoFs"
  have run: "?run = (fst ?run, snd ?run)" by simp
  have one: "pr_successCount (fst ?run) = 1" by code_simp
  show ?thesis
    using report_success_iff_some_updated [OF run] one by simp
qed

text \<open>
  C7. The task returns a report (every exception is caught inside the loop): one entry
  for each of the two configuration paths, in order, each with its path, a success flag
  and a message (on success) or an error (on failure); the number of paths, the number of
  successes and a summary. When one of the two files holds the company and can be written
  and the other does not exist, the report has 1 success of 2 and the entry of the missing
  file has the error \<open>File does not exist: <path>\<close>.
\<close>

theorem config_patch_reports_each_location:
  assumes "updateConfigWithMemoPath now cwd companyName fs = (report, fs')"
  shows "map pe_path (pr_results report) = configPaths
       \<and> (\<forall>e \<in> set (pr_results report).
             (pe_success e \<longrightarrow> pe_message e \<noteq> None) \<and> (\<not> pe_success e \<longrightarrow> pe_error e \<noteq> None))
       \<and> pr_totalFiles report = length configPaths
       \<and> pr_successCount report = length (filter pe_success (pr_results report))
       \<and> pr_summary report = ''Updated '' @ showNat (pr_successCount report) @ ''/2 config files for '' @ companyName
       \<and> (\<forall>good missing t cs.
             set configPaths = {good, missing} \<and> good \<noteq> missing
             \<and> fs (pathJoin cwd good) = Some (FileNode t True (Json (ConfigDoc cs)))
             \<and> companyName \<in> c_name ` set cs
             \<and> fs (pathJoin cwd missing) = None
             \<longrightarrow> pr_successCount report = 1 \<and> pr_totalFiles report = 2
               \<and> (\<exists>e \<in> set (pr_results report). pe_path e = missing \<and> \<not> pe_success e
                     \<and> pe_error e = Some (''File does not exist: '' @ missing)))"
proof -
  from assms obtain e1 fs1 e2 where
    p1: "patchConfig now cwd companyName ''cypress/fixtures/config.json'' fs = (e1, fs1)" and
    p2: "patchConfig now cwd companyName ''config.json'' fs1 = (e2, fs')" and
    r: "pr_results report = [e1, e2]" and
    c: "pr_successCount report = length (filter pe_success [e1, e2])" and
    t: "pr_totalFiles report = 2" and
    m: "pr_summary report = ''Updated '' @ showNat (pr_successCount report) @ ''/2 config files for '' @ companyName"
    by (rule update_unfold)
  have paths: "map pe_path (pr_results report) = configPaths"
    using patchConfig_path [of now cwd companyName "''cypress/fixtures/config.json''" fs]
      patchConfig_path [of now cwd companyName "''config.json''" fs1] p1 p2
    by (simp add: r configPaths_def)
  have entries: "\<forall>e \<in> set (pr_results report).
             (pe_success e \<longrightarrow> pe_message e \<noteq> None) \<and> (\<not> pe_success e \<longrightarrow> pe_error e \<noteq> None)"
    using patchConfig_entry [OF p1] patchConfig_entry [OF p2] by (simp add: r)
  have scenario: "pr_successCount report = 1 \<and> pr_totalFiles report = 2
               \<and> (\<exists>e \<in> set (pr_results report). pe_path e = missing \<and> \<not> pe_success e
                     \<and> pe_error e = Some (''File does not exist: '' @ missing))"
    if s: "set configPaths = {good, missing}" and ne: "good \<noteq> missing"
      and g: "fs (pathJoin cwd good) = Some (FileNode t True (Json (ConfigDoc cs)))"
      and n: "companyName \<in> c_name ` set cs"
      and mi: "fs (pathJoin cwd missing) = None" for good missing t cs
  proof -
    from s ne consider
      (a) "good = ''cypress/fixtures/config.json''" "missing = ''config.json''"
      | (b) "good = ''config.json''" "missing = ''cypress/fixtures/config.json''"
      by (auto simp: configPaths_def doubleton_eq_iff)
    then show ?thesis
    proof cases
      case a
      from patchConfig_good [where fs = fs and cwd = cwd and configPath = good and now = now, OF g n] p1 a
      have s1: "pe_success e1" and f1: "\<forall>p. p \<noteq> pathJoin cwd good \<longrightarrow> fs1 p = fs p" by auto
      have "fs1 (pathJoin cwd missing) = None"
        using f1 mi a config_paths_differ [of cwd] by (metis)
      from patchConfig_missing [where fs = fs1 and cwd = cwd and configPath = missing, OF this, of now companyName] p2 a
      have "e2 = patchFailed ''config.json'' (''File does not exist: '' @ ''config.json'')" by simp
      then show ?thesis using s1 a by (simp add: r c t patchFailed_def)
    next
      case b
      from patchConfig_missing [where fs = fs and cwd = cwd and configPath = missing, OF mi, of now companyName] p1 b
      have e1: "e1 = patchFailed ''cypress/fixtures/config.json'' (''File does not exist: '' @ ''cypress/fixtures/config.json'')"
        and "fs1 = fs" by simp_all
      with patchConfig_good [where fs = fs and cwd = cwd and configPath = good and now = now, OF g n] p2 b
      have "pe_success e2" by auto
      then show ?thesis using e1 b by (simp add: r c t patchFailed_def)
    qed
  qed
  show ?thesis using paths entries t c r m scenario
    by (simp add: configPaths_def)
qed


theorem config_patch_reports_each_location_witness:
  "demoFs (pathJoin demoCwd ''cypress/fixtures/config.json'') = None
   \<and> pr_successCount (fst (updateConfigWithMemoPath 99 demoCwd ''Acme'' demoFs)) = 1
   \<and> pr_totalFiles (fst (updateConfigWithMemoPath 99 demoCwd ''Acme'' demoFs)) = 2
   \<and> (\<exists>e. e \<in> set (pr_results (fst (updateConfigWithMemoPath 99 demoCwd ''Acme'' demoFs)))
          \<and> pe_path e = ''cypress/fixtures/config.json'' \<and> \<not> pe_success e
          \<and> pe_error e = Some ''File does not exist: cypress/fixtures/config.json'')"
proof -
  let ?run = "updateConfigWithMemoPath 99 demoCwd ''Acme'' demoFs"
  let ?cs = "[\<lparr>c_id = ''7'', c_name = ''Acme'', c_frontend_url = ''/company-detail/7'',
               ai_generated_memo = None\<rparr>]"
  have run: "?run = (fst ?run, snd ?run)" by simp
  have s: "set configPaths = {''config.json'', ''cypress/fixtures/config.json''}"
    by (auto simp: configPaths_def)
  have ne: "''config.json'' \<noteq> ''cypress/fixtures/config.json''" by simp
  have g: "demoFs (pathJoin demoCwd ''config.json'') = Some (FileNode 10 True (Json (ConfigDoc ?cs)))"
    by (simp add: demoFs_def demoCwd_def demoConfig_def pathJoin_def normalizeSegs_def normalizeStep_def)
  have n: "''Acme'' \<in> c_name ` set ?cs" by simp
  have mi: "demoFs (pathJoin demoCwd ''cypress/fixtures/config.json'') = None"
    by (simp add: demoFs_def demoCwd_def pathJoin_def normalizeSegs_def normalizeStep_def)
  from config_patch_reports_each_location [OF run]
  have "\<forall>good missing t cs.
             set configPaths = {good, missing} \<and> good \<noteq> missing
             \<and> demoFs (pathJoin demoCwd good) = Some (FileNode t True (Json (ConfigDoc cs)))
             \<and> ''Acme'' \<in> c_name ` set cs
             \<and> demoFs (pathJoin demoCwd missing) = None
             \<longrightarrow> pr_successCount (fst ?run) = 1 \<and> pr_totalFiles (fst ?run) = 2
               \<and> (\<exists>e \<in> set (pr_results (fst ?run)). pe_path e = missing \<and> \<not> pe_success e
                     \<and> pe_error e = Some (''File does not exist: '' @ missing))"
    by blast
  then have all: "\<And>good missing t cs.
             set configPaths = {good, missing} \<and> good \<noteq> missing
             \<and> demoFs (pathJoin demoCwd good) = Some (FileNode t True (Json (ConfigDoc cs)))
             \<and> ''Acme'' \<in> c_name ` set cs
             \<and> demoFs (pathJoin demoCwd missing) = None
             \<Longrightarrow> pr_successCount (fst ?run) = 1 \<and> pr_totalFiles (fst ?run) = 2
               \<and> (\<exists>e \<in> set (pr_results (fst ?run)). pe_path e = missing \<and> \<not> pe_success e
                     \<and> pe_error e = Some (''File does not exist: '' @ missing))"
    by (rule allE) blast
  have prem: "set configPaths = {''config.json'', ''cypress/fixtures/config.json''}
             \<and> ''config.json'' \<noteq> ''cypress/fixtures/config.json''
             \<and> demoFs (pathJoin demoCwd ''config.json'') = Some (FileNode 10 True (Json (ConfigDoc ?cs)))
             \<and> ''Acme'' \<in> c_name ` set ?cs
             \<and> demoFs (pathJoin demoCwd ''cypress/fixtures/config.json'') = None"
    using s ne g n mi by (intro conjI)
  have "pr_successCount (fst ?run) = 1 \<and> pr_totalFiles (fst ?run) = 2
               \<and> (\<exists>e \<in> set (pr_results (fst ?run)). pe_path e = ''cypress/fixtures/config.json'' \<and> \<not> pe_success e
                     \<and> pe_error e = Some (''File does not exist: '' @ ''cypress/fixtures/config.json''))"
    by (rule all [OF prem])
  with mi show ?thesis by (simp add: Bex_def)
qed


end
